(* ===== verification/Qubit_Prelude.thy ===== *)
theory Qubit_Prelude
  imports "HOL-Library.AList" "HOL-Library.Multiset" "HOL-Library.Word"
begin

text \<open>
  The vocabulary the components share: machine integers, results, the
  standard library's hash map, hash set and read-write lock, and the interface
  of a key-value store with the facts about a sequence of insertions that its
  clients use.
\<close>

section \<open>Collections of facts\<close>

named_theorems hm_simps \<open>lookups after an operation on a hash map\<close>
named_theorems topo_pres \<open>operations keep the topology invariant\<close>

section \<open>Machine integers and results\<close>

type_synonym u8 = "8 word"
type_synonym u16 = "16 word"
type_synonym u32 = "32 word"
type_synonym u64 = "64 word"

text \<open>\<open>Result<A, E>\<close> is the sum \<open>'e + 'a\<close>, with \<open>Inl\<close> the error.\<close>

type_synonym ('a, 'e) rust_result = "'e + 'a"

section \<open>Hash maps and hash sets\<close>

text \<open>
  A \<open>HashMap<K, V>\<close> is an association list with distinct keys. The order of the
  list stands for the unspecified iteration order of the Rust map; statements
  read the map through \<^const>\<open>map_of\<close>, \<^const>\<open>mset\<close> or \<^const>\<open>set\<close>, so they
  hold for every order.
\<close>

type_synonym ('k, 'v) hash_map = "('k \<times> 'v) list"

abbreviation hm_get :: "('k, 'v) hash_map \<Rightarrow> 'k \<Rightarrow> 'v option" where
  "hm_get m k \<equiv> map_of m k"

abbreviation hm_contains :: "('k, 'v) hash_map \<Rightarrow> 'k \<Rightarrow> bool" where
  "hm_contains m k \<equiv> k \<in> fst ` set m"

abbreviation hm_insert :: "'k \<Rightarrow> 'v \<Rightarrow> ('k, 'v) hash_map \<Rightarrow> ('k, 'v) hash_map" where
  "hm_insert k v m \<equiv> AList.update k v m"

abbreviation hm_remove :: "'k \<Rightarrow> ('k, 'v) hash_map \<Rightarrow> ('k, 'v) hash_map" where
  "hm_remove k m \<equiv> AList.delete k m"

abbreviation hm_ok :: "('k, 'v) hash_map \<Rightarrow> bool" where
  "hm_ok m \<equiv> distinct (map fst m)"

abbreviation hm_vec :: "('k, 'v list) hash_map \<Rightarrow> 'k \<Rightarrow> 'v list" where
  "hm_vec m k \<equiv> (case hm_get m k of None \<Rightarrow> [] | Some vs \<Rightarrow> vs)"

text \<open>\<open>m.entry(k).or_insert(v)\<close> keeps a value that is there.\<close>

definition hm_or_insert :: "'k \<Rightarrow> 'v \<Rightarrow> ('k, 'v) hash_map \<Rightarrow> ('k, 'v) hash_map" where
  "hm_or_insert k v m = (case hm_get m k of None \<Rightarrow> hm_insert k v m | Some _ \<Rightarrow> m)"

text \<open>\<open>f(m.entry(k).or_default())\<close> on a map whose default value is the empty vector.\<close>

definition hm_modify :: "'k \<Rightarrow> ('v list \<Rightarrow> 'v list) \<Rightarrow> ('k, 'v list) hash_map \<Rightarrow> ('k, 'v list) hash_map" where
  "hm_modify k f m = hm_insert k (f (hm_vec m k)) m"

text \<open>\<open>for v in m.values_mut() { *v = f(v) }\<close>\<close>

definition hm_map_values :: "('v \<Rightarrow> 'w) \<Rightarrow> ('k, 'v) hash_map \<Rightarrow> ('k, 'w) hash_map" where
  "hm_map_values f m = map (\<lambda>(k, v). (k, f v)) m"

text \<open>\<open>iter.collect::<HashMap<_, _>>()\<close>: a later pair with the same key wins.\<close>

definition hm_collect :: "('k \<times> 'v) list \<Rightarrow> ('k, 'v) hash_map" where
  "hm_collect kvs = fold (\<lambda>(k, v). hm_insert k v) kvs []"

text \<open>A \<open>HashSet<T>\<close> is a list without repetition; \<open>insert\<close> tells whether the element was new.\<close>

type_synonym 'a hash_set = "'a list"

definition hs_insert :: "'a \<Rightarrow> 'a hash_set \<Rightarrow> bool \<times> 'a hash_set" where
  "hs_insert x s = (x \<notin> set s, List.insert x s)"

text \<open>The multiset of all elements of all vectors of a map.\<close>

definition hm_elems :: "('k, 'v list) hash_map \<Rightarrow> 'v multiset" where
  "hm_elems m = mset (concat (map snd m))"

section \<open>Read-write locks\<close>

text \<open>
  An \<open>RwLock<T>\<close>: \<open>read()\<close> and \<open>write()\<close> fail exactly when a thread has panicked
  while it held the lock for writing (the lock is poisoned).
\<close>

datatype 'a rwlock = RwLock (poisoned: bool) (inner: 'a)

definition new_lock :: "'a \<Rightarrow> 'a rwlock" where
  "new_lock a = RwLock False a"

definition lock_set :: "'a \<Rightarrow> 'a rwlock \<Rightarrow> 'a rwlock" where
  "lock_set a l = RwLock (poisoned l) a"

text \<open>A \<open>OnceLock\<close>, as in \<open>CONFIG.get_or_init(init).clone()\<close>: the first successful call fixes the value;
  \<open>None\<close> is a panic of the initialiser.\<close>

definition get_or_init :: "'c option \<Rightarrow> 'c option \<Rightarrow> ('c \<times> 'c option) option" where
  "get_or_init cell computed =
     (case cell of Some c \<Rightarrow> Some (c, cell) | None \<Rightarrow> map_option (\<lambda>c. (c, Some c)) computed)"

lemma lock_set_sel [simp]:
  "inner (lock_set a l) = a" "poisoned (lock_set a l) = poisoned l"
  by (simp_all add: lock_set_def)

lemma lock_set_inner [simp]: "lock_set (inner l) l = l"
  by (cases l) (simp add: lock_set_def)

lemma new_lock_sel [simp]: "inner (new_lock a) = a" "\<not> poisoned (new_lock a)"
  by (simp_all add: new_lock_def)

section \<open>Facts about hash maps\<close>

lemma hm_contains_get: "hm_contains m k \<longleftrightarrow> hm_get m k \<noteq> None"
  by (simp add: map_of_eq_None_iff)

lemma hm_contains_dom: "hm_contains m k \<longleftrightarrow> k \<in> dom (hm_get m)"
  by (simp add: dom_map_of_conv_image_fst)

lemma hm_get_insert [hm_simps]: "hm_get (hm_insert k v m) k' = (if k' = k then Some v else hm_get m k')"
  by (simp add: update_conv')

lemma hm_get_remove [hm_simps]: "hm_get (hm_remove k m) k' = (if k' = k then None else hm_get m k')"
  by (simp add: delete_conv')

lemma hm_keys_insert [hm_simps]: "fst ` set (hm_insert k v m) = insert k (fst ` set m)"
  by (simp add: dom_update)

lemma hm_keys_remove [hm_simps]: "fst ` set (hm_remove k m) = fst ` set m - {k}"
  by (induction m) auto

lemma hm_ok_insert [simp]: "hm_ok m \<Longrightarrow> hm_ok (hm_insert k v m)"
  by (rule distinct_update)

lemma hm_ok_remove [simp]: "hm_ok m \<Longrightarrow> hm_ok (hm_remove k m)"
  by (rule distinct_delete)

lemma hm_get_or_insert [hm_simps]:
  "hm_get (hm_or_insert k v m) k' =
     (if k' = k \<and> hm_get m k = None then Some v else hm_get m k')"
  by (auto simp: hm_or_insert_def hm_get_insert split: option.split)

lemma hm_keys_or_insert [hm_simps]: "fst ` set (hm_or_insert k v m) = insert k (fst ` set m)"
  using hm_contains_get [of k m]
  by (auto simp: hm_or_insert_def hm_keys_insert split: option.split)

lemma hm_ok_or_insert [simp]: "hm_ok m \<Longrightarrow> hm_ok (hm_or_insert k v m)"
  by (simp add: hm_or_insert_def split: option.split)

lemma hm_get_modify [hm_simps]:
  "hm_get (hm_modify k f m) k' =
     (if k' = k then Some (f (hm_vec m k)) else hm_get m k')"
  by (simp add: hm_modify_def hm_get_insert)

lemma hm_ok_modify [simp]: "hm_ok m \<Longrightarrow> hm_ok (hm_modify k f m)"
  by (simp add: hm_modify_def)

lemma hm_modify_keys: "fst ` set (hm_modify k f m) = insert k (fst ` set m)"
proof -
  have "hm_get (hm_modify k f m) k' = None \<longleftrightarrow> k' \<notin> insert k (fst ` set m)" for k'
    by (simp add: hm_get_modify map_of_eq_None_iff)
  then show ?thesis by (auto simp: map_of_eq_None_iff)
qed

lemma hm_get_map_values [hm_simps]: "hm_get (hm_map_values f m) k = map_option f (hm_get m k)"
  by (induction m) (auto simp: hm_map_values_def)

lemma hm_keys_map_values [hm_simps]: "map fst (hm_map_values f m) = map fst m"
  by (induction m) (auto simp: hm_map_values_def)

lemma hm_elems_Cons [simp]: "hm_elems ((k, vs) # m) = mset vs + hm_elems m"
  by (simp add: hm_elems_def)

lemma hm_elems_Nil [simp]: "hm_elems [] = {#}"
  by (simp add: hm_elems_def)

lemma hm_elems_insert:
  "hm_ok m \<Longrightarrow> hm_elems (hm_insert k vs m) + mset (hm_vec m k)
     = hm_elems m + mset vs"
proof (induction m)
  case Nil
  then show ?case by simp
next
  case (Cons p m)
  obtain k0 v0 where p: "p = (k0, v0)" by (cases p)
  show ?case
  proof (cases "k0 = k")
    case True
    with Cons.prems p show ?thesis by (simp add: ac_simps)
  next
    case False
    with Cons p show ?thesis by (simp add: ac_simps)
  qed
qed

lemma hm_elems_remove:
  "hm_ok m \<Longrightarrow> hm_elems (hm_remove k m) + mset (hm_vec m k)
     = hm_elems m"
proof (induction m)
  case Nil
  then show ?case by simp
next
  case (Cons p m)
  obtain k0 v0 where p: "p = (k0, v0)" by (cases p)
  have gone: "k0 \<notin> fst ` set m" using Cons.prems p by simp
  show ?case
  proof (cases "k0 = k")
    case True
    with gone p show ?thesis by (simp add: delete_idem ac_simps)
  next
    case False
    with Cons p show ?thesis by (simp add: ac_simps)
  qed
qed

lemma hm_elems_append:
  "hm_ok m \<Longrightarrow> hm_elems (hm_modify k (\<lambda>vs. vs @ ws) m) = hm_elems m + mset ws"
  using hm_elems_insert [of m k "hm_vec m k @ ws"]
  by (simp add: hm_modify_def)

lemma hm_elems_map_values: "hm_elems (hm_map_values (map f) m) = image_mset f (hm_elems m)"
  by (induction m) (auto simp: hm_map_values_def hm_elems_def)

lemma in_hm_elems:
  "hm_ok m \<Longrightarrow> v \<in># hm_elems m \<longleftrightarrow> (\<exists>k vs. hm_get m k = Some vs \<and> v \<in> set vs)"
  by (simp add: hm_elems_def) force

section \<open>Hash sets\<close>

lemma hs_insert_simps [simp]:
  "fst (hs_insert x s) = (x \<notin> set s)" "snd (hs_insert x s) = List.insert x s"
  by (simp_all add: hs_insert_def)

section \<open>Key-value stores\<close>

text \<open>
  What the components rely on when they insert into a store and look a key up
  again, whatever the store is made of: the standard library's hash map here,
  the caches of theory \<open>Moka_Cache\<close> there.
\<close>

locale kv_store =
  fixes lookup :: "'m \<Rightarrow> 'k \<Rightarrow> 'v option"
    and put :: "'k \<Rightarrow> 'v \<Rightarrow> 'm \<Rightarrow> 'm"
    and invar :: "'m \<Rightarrow> bool"
  assumes lookup_put: "invar m \<Longrightarrow> lookup (put k v m) k' = (if k' = k then Some v else lookup m k')"
    and invar_put: "invar m \<Longrightarrow> invar (put k v m)"
begin

lemma invar_put_all: "invar m \<Longrightarrow> invar (fold (\<lambda>(k, v). put k v) kvs m)"
  by (induction kvs arbitrary: m) (auto simp: invar_put)

text \<open>After a sequence of insertions the last pair of a key decides, an absent key keeps its old value.\<close>

lemma lookup_put_all:
  "invar m \<Longrightarrow>
     lookup (fold (\<lambda>(k, v). put k v) kvs m) k =
       (case map_of (rev kvs) k of None \<Rightarrow> lookup m k | Some v \<Rightarrow> Some v)"
proof (induction kvs arbitrary: m)
  case Nil
  then show ?case by simp
next
  case (Cons p kvs)
  obtain k0 v0 where p: "p = (k0, v0)" by (cases p)
  have inv: "invar (put k0 v0 m)" using Cons.prems by (rule invar_put)
  show ?case
    using Cons.IH [OF inv] Cons.prems p
    by (auto simp: lookup_put map_add_def split: option.splits)
qed

lemma put_idem: "invar m \<Longrightarrow> lookup (put k v (put k v m)) = lookup (put k v m)"
  by (rule ext) (simp add: lookup_put invar_put)

end

interpretation hm: kv_store map_of AList.update "\<lambda>m. distinct (map fst m)"
  by unfold_locales (simp_all add: hm_get_insert)

lemma hm_get_collect: "hm_get (hm_collect kvs) k = map_of (rev kvs) k"
  using hm.lookup_put_all [of "[]" kvs k]
  by (simp add: hm_collect_def split: option.splits)

lemma hm_ok_collect [simp]: "hm_ok (hm_collect kvs)"
  using hm.invar_put_all [of "[]" kvs] by (simp add: hm_collect_def)

text \<open>Collecting renamed keys is lossless when the renaming is injective on the keys.\<close>

lemma hm_get_collect_map:
  assumes ok: "hm_ok m" and inj: "inj_on f (fst ` set m)" and k: "k \<in> fst ` set m"
  shows "hm_get (hm_collect (map (\<lambda>(k, v). (f k, g k v)) m)) (f k) = map_option (g k) (hm_get m k)"
proof -
  have "hm_ok (map (\<lambda>(k, v). (f k, g k v)) m)"
    using ok inj by (simp add: distinct_map comp_def case_prod_unfold inj_on_def)
  then have "map_of (rev (map (\<lambda>(k, v). (f k, g k v)) m)) = map_of (map (\<lambda>(k, v). (f k, g k v)) m)"
    by (simp add: map_of_inject_set rev_map [symmetric] distinct_map)
  moreover have "map_of (map (\<lambda>(k, v). (f k, g k v)) m) (f k) = map_option (g k) (map_of m k)"
    using inj k
  proof (induction m)
    case Nil
    then show ?case by simp
  next
    case (Cons p m)
    then show ?case by (cases p) (auto simp: inj_on_def map_of_eq_None_iff)
  qed
  ultimately show ?thesis by (simp add: hm_get_collect)
qed

end
