(* ===== verification/Topology.thy ===== *)
theory Topology
  imports Qubit_Prelude
begin

text \<open>
  The in-memory service graph of \<^verbatim>\<open>core/src/topology/topology.rs\<close>: its data,
  the operations that change it, and the graph it stands for. The sub-graph
  query has a theory of its own.
\<close>

section \<open>Data\<close>

record node_id =
  application_name :: string
  namespace :: string

record flow =
  source_node :: node_id
  destination_node :: node_id
  flow_path :: string
  flow_method :: string

record k8s_event =
  timestamp :: u64
  resource_name :: string
  resource_type :: string
  event_type :: string
  event_data :: string

record node_data =
  ip :: string
  k8s_events :: "k8s_event list"

record topology =
  nodes :: "(node_id, node_data) hash_map"
  upstream :: "(node_id, flow list) hash_map"
  downstream :: "(node_id, flow list) hash_map"

abbreviation mk_node :: "string \<Rightarrow> string \<Rightarrow> node_id" where
  "mk_node app ns \<equiv> \<lparr>application_name = app, namespace = ns\<rparr>"

text \<open>\<open>NodeData { ip, ..Default::default() }\<close>\<close>

definition node_data_of_ip :: "string \<Rightarrow> node_data" where
  "node_data_of_ip a = \<lparr>ip = a, k8s_events = []\<rparr>"

section \<open>Operations\<close>

definition new_topology :: topology where
  "new_topology = \<lparr>nodes = [], upstream = [], downstream = []\<rparr>"

definition add_node :: "node_id \<Rightarrow> node_data \<Rightarrow> topology \<Rightarrow> topology" where
  "add_node n d t =
     (if hm_contains (nodes t) n then t else t\<lparr>nodes := hm_insert n d (nodes t)\<rparr>)"

text \<open>The body shared by both halves of \<open>add_flow\<close>: \<open>if !flows.contains(&flow) { flows.push(flow) }\<close>.\<close>

definition push_new :: "'a \<Rightarrow> 'a list \<Rightarrow> 'a list" where
  "push_new x xs = (if x \<in> set xs then xs else xs @ [x])"

definition add_flow :: "flow \<Rightarrow> topology \<Rightarrow> topology" where
  "add_flow f t =
     (let t1 = t\<lparr>upstream := hm_modify (destination_node f) (push_new f) (upstream t)\<rparr>
      in t1\<lparr>downstream := hm_modify (source_node f) (push_new f) (downstream t1)\<rparr>)"

definition add_k8s_event :: "node_id \<Rightarrow> k8s_event \<Rightarrow> topology \<Rightarrow> topology" where
  "add_k8s_event n e t =
     (case hm_get (nodes t) n of
        None \<Rightarrow> t
      | Some d \<Rightarrow> t\<lparr>nodes := hm_insert n (d\<lparr>k8s_events := k8s_events d @ [e]\<rparr>) (nodes t)\<rparr>)"

definition stale_id_of :: "string \<Rightarrow> node_id" where
  "stale_id_of a = mk_node a ''unknown''"

text \<open>The body of the loops of step 4 of \<open>resolve_unknown_node\<close>.\<close>

definition rewrite_flow :: "node_id \<Rightarrow> node_id \<Rightarrow> flow \<Rightarrow> flow" where
  "rewrite_flow stale resolved f =
     (let f1 = (if source_node f = stale then f\<lparr>source_node := resolved\<rparr> else f)
      in if destination_node f1 = stale then f1\<lparr>destination_node := resolved\<rparr> else f1)"

text \<open>Steps 2 and 3: move the flow vector of the stale key to the end of the resolved key's vector.\<close>

definition rekey :: "node_id \<Rightarrow> node_id \<Rightarrow> (node_id, flow list) hash_map \<Rightarrow> (node_id, flow list) hash_map" where
  "rekey stale resolved m =
     (case hm_get m stale of
        None \<Rightarrow> m
      | Some flows \<Rightarrow> hm_modify resolved (\<lambda>fs. fs @ flows) (hm_remove stale m))"

definition resolve_unknown_node :: "string \<Rightarrow> string \<Rightarrow> string \<Rightarrow> topology \<Rightarrow> topology" where
  "resolve_unknown_node addr app ns t =
     (let stale = stale_id_of addr; resolved = mk_node app ns in
      if \<not> hm_contains (nodes t) stale then t
      else
        let t1 = (case hm_get (nodes t) stale of
                    None \<Rightarrow> t
                  | Some d \<Rightarrow> t\<lparr>nodes := hm_or_insert resolved d (hm_remove stale (nodes t))\<rparr>);
            t2 = t1\<lparr>upstream := rekey stale resolved (upstream t1)\<rparr>;
            t3 = t2\<lparr>downstream := rekey stale resolved (downstream t2)\<rparr>;
            t4 = t3\<lparr>upstream := hm_map_values (map (rewrite_flow stale resolved)) (upstream t3)\<rparr>
        in t4\<lparr>downstream := hm_map_values (map (rewrite_flow stale resolved)) (downstream t4)\<rparr>)"

section \<open>The invariant\<close>

text \<open>The flow vectors of a map sit under the node the selector reads off each flow.\<close>

definition keyed_by :: "(flow \<Rightarrow> node_id) \<Rightarrow> (node_id, flow list) hash_map \<Rightarrow> bool" where
  "keyed_by sel m = (\<forall>(k, fs) \<in> set m. \<forall>f \<in> set fs. sel f = k)"

text \<open>
  A topology is well formed when its three maps have distinct keys, each flow is
  filed under its destination in \<open>upstream\<close> and under its source in \<open>downstream\<close>,
  both maps hold the same flows (as often), and every endpoint is a node.
\<close>

definition mirrored :: "topology \<Rightarrow> bool" where
  "mirrored t \<longleftrightarrow>
     hm_ok (nodes t) \<and> hm_ok (upstream t) \<and> hm_ok (downstream t) \<and>
     keyed_by destination_node (upstream t) \<and> keyed_by source_node (downstream t) \<and>
     hm_elems (upstream t) = hm_elems (downstream t)"

definition endpoints_known :: "topology \<Rightarrow> bool" where
  "endpoints_known t \<longleftrightarrow>
     (\<forall>f \<in># hm_elems (downstream t).
        hm_contains (nodes t) (source_node f) \<and> hm_contains (nodes t) (destination_node f))"

definition topo_inv :: "topology \<Rightarrow> bool" where
  "topo_inv t \<longleftrightarrow> mirrored t \<and> endpoints_known t"

text \<open>The graph a topology stands for: its nodes, and the set of its flows.\<close>

definition node_set :: "topology \<Rightarrow> node_id set" where
  "node_set t = fst ` set (nodes t)"

definition flow_set :: "topology \<Rightarrow> flow set" where
  "flow_set t = set_mset (hm_elems (downstream t))"

text \<open>Renaming of one node, the specification of \<open>resolve_unknown_node\<close>.\<close>

definition rename_node :: "node_id \<Rightarrow> node_id \<Rightarrow> node_id \<Rightarrow> node_id" where
  "rename_node stale resolved n = (if n = stale then resolved else n)"

definition rename_flow :: "node_id \<Rightarrow> node_id \<Rightarrow> flow \<Rightarrow> flow" where
  "rename_flow stale resolved f =
     f\<lparr>source_node := rename_node stale resolved (source_node f),
       destination_node := rename_node stale resolved (destination_node f)\<rparr>"

text \<open>No flow is recorded twice: what the \<open>contains\<close> tests of \<open>add_flow\<close> are for.\<close>

definition flows_distinct :: "topology \<Rightarrow> bool" where
  "flows_distinct t \<longleftrightarrow> distinct (concat (map snd (downstream t)))"

section \<open>The abstract graph and its operations\<close>

record abs_graph =
  graph_nodes :: "node_id set"
  graph_flows :: "flow set"

definition abs_topo :: "topology \<Rightarrow> abs_graph" where
  "abs_topo t = \<lparr>graph_nodes = node_set t, graph_flows = flow_set t\<rparr>"

datatype topo_op =
    AddNode node_id node_data
  | AddFlow flow
  | AddK8sEvent node_id k8s_event
  | Resolve string string string

fun apply_op :: "topo_op \<Rightarrow> topology \<Rightarrow> topology" where
  "apply_op (AddNode n d) = add_node n d"
| "apply_op (AddFlow f) = add_flow f"
| "apply_op (AddK8sEvent n e) = add_k8s_event n e"
| "apply_op (Resolve addr app ns) = resolve_unknown_node addr app ns"

fun spec_op :: "topo_op \<Rightarrow> abs_graph \<Rightarrow> abs_graph" where
  "spec_op (AddNode n d) g = g\<lparr>graph_nodes := insert n (graph_nodes g)\<rparr>"
| "spec_op (AddFlow f) g = g\<lparr>graph_flows := insert f (graph_flows g)\<rparr>"
| "spec_op (AddK8sEvent n e) g = g"
| "spec_op (Resolve addr app ns) g =
     (if stale_id_of addr \<in> graph_nodes g
      then \<lparr>graph_nodes = rename_node (stale_id_of addr) (mk_node app ns) ` graph_nodes g,
            graph_flows = rename_flow (stale_id_of addr) (mk_node app ns) ` graph_flows g\<rparr>
      else g)"

definition run_ops :: "topo_op list \<Rightarrow> topology" where
  "run_ops ops = fold apply_op ops new_topology"

section \<open>Sample topologies\<close>

text \<open>The helpers \<open>node\<close>, \<open>flow\<close> and \<open>make_graph\<close> of the module's tests.\<close>

definition test_flow :: "string \<Rightarrow> string \<Rightarrow> string \<Rightarrow> string \<Rightarrow> flow" where
  "test_flow src_svc src_ns dst_svc dst_ns =
     \<lparr>source_node = mk_node src_svc src_ns, destination_node = mk_node dst_svc dst_ns,
      flow_path = ''/'', flow_method = ''GET''\<rparr>"

definition make_graph :: topology where
  "make_graph =
     (let t = fold (\<lambda>svc. add_node (mk_node svc ''ns'') (node_data_of_ip []))
                [''caller'', ''svc-a'', ''svc-b'', ''svc-c'', ''svc-d'', ''svc-e''] new_topology
      in fold (\<lambda>(src, dst). add_flow (test_flow src ''ns'' dst ''ns''))
           [(''caller'', ''svc-a''), (''svc-a'', ''svc-b''), (''svc-a'', ''svc-d''),
            (''svc-b'', ''svc-c''), (''svc-b'', ''svc-e'')] t)"

text \<open>A caller seen once with the callee's service name and once with its raw address.\<close>

definition half_resolved :: topology where
  "half_resolved = run_ops
     [AddNode (mk_node ''svc-a'' ''default'') (node_data_of_ip ''10.0.0.1''),
      AddNode (mk_node ''svc-b'' ''default'') (node_data_of_ip ''10.0.0.2''),
      AddNode (mk_node ''10.0.0.2'' ''unknown'') (node_data_of_ip ''10.0.0.2''),
      AddFlow (test_flow ''svc-a'' ''default'' ''svc-b'' ''default''),
      AddFlow (test_flow ''svc-a'' ''default'' ''10.0.0.2'' ''unknown'')]"

section \<open>Flow vectors under their key\<close>

lemma keyed_by_get:
  "hm_ok m \<Longrightarrow> keyed_by sel m \<longleftrightarrow> (\<forall>k fs. hm_get m k = Some fs \<longrightarrow> (\<forall>f \<in> set fs. sel f = k))"
  by (auto simp: keyed_by_def)

lemma keyed_by_vec:
  "hm_ok m \<Longrightarrow> keyed_by sel m \<longleftrightarrow> (\<forall>k. \<forall>f \<in> set (hm_vec m k). sel f = k)"
  by (auto simp: keyed_by_get split: option.splits)

text \<open>In a keyed map, the vector of a key holds exactly the map's flows with that key.\<close>

lemma keyed_vec_elems:
  assumes "hm_ok m" and "keyed_by sel m"
  shows "set (hm_vec m k) = {f. f \<in># hm_elems m \<and> sel f = k}"
proof -
  have "f \<in> set (hm_vec m k) \<longleftrightarrow> f \<in># hm_elems m \<and> sel f = k" for f
    using assms by (auto simp: in_hm_elems keyed_by_get split: option.splits)
  then show ?thesis by blast
qed

lemma hm_elems_push_new:
  assumes "hm_ok m" and "keyed_by sel m" and "sel f = k"
  shows "hm_elems (hm_modify k (push_new f) m) =
           hm_elems m + (if f \<in># hm_elems m then {#} else {#f#})"
proof -
  have mem: "f \<in> set (hm_vec m k) \<longleftrightarrow> f \<in># hm_elems m"
    using keyed_vec_elems [OF assms(1,2), of k] assms(3) by simp
  have "hm_modify k (push_new f) m = hm_modify k (\<lambda>vs. vs @ (if f \<in># hm_elems m then [] else [f])) m"
    using mem by (simp add: hm_modify_def push_new_def)
  then show ?thesis using hm_elems_append [OF assms(1)] by simp
qed

lemma keyed_push_new:
  assumes "hm_ok m" and "keyed_by sel m" and "sel f = k"
  shows "keyed_by sel (hm_modify k (push_new f) m)"
  using assms by (auto simp: keyed_by_vec hm_get_modify push_new_def)

section \<open>Rekeying\<close>

lemma hm_ok_rekey [simp]: "hm_ok m \<Longrightarrow> hm_ok (rekey stale resolved m)"
  by (simp add: rekey_def split: option.split)

lemma hm_elems_rekey: "hm_ok m \<Longrightarrow> hm_elems (rekey stale resolved m) = hm_elems m"
  using hm_elems_remove [of m stale]
  by (auto simp: rekey_def hm_elems_append split: option.split)

lemma rewrite_flow_eq: "rewrite_flow stale resolved f = rename_flow stale resolved f"
  by (simp add: rewrite_flow_def rename_flow_def rename_node_def Let_def)

lemma rename_flow_sel [simp]:
  "source_node (rename_flow s r f) = rename_node s r (source_node f)"
  "destination_node (rename_flow s r f) = rename_node s r (destination_node f)"
  "flow_path (rename_flow s r f) = flow_path f"
  "flow_method (rename_flow s r f) = flow_method f"
  by (simp_all add: rename_flow_def)

text \<open>
  Rekeying and then renaming inside the vectors files every renamed flow under
  its renamed key again.
\<close>

lemma keyed_rekey_rename:
  assumes ok: "hm_ok m" and keyed: "keyed_by sel m"
    and sel: "\<And>f. sel (rename_flow stale resolved f) = rename_node stale resolved (sel f)"
  shows "keyed_by sel (hm_map_values (map (rename_flow stale resolved)) (rekey stale resolved m))"
proof -
  have "sel (rename_flow stale resolved f) = k"
    if "hm_get (rekey stale resolved m) k = Some fs" and "f \<in> set fs" for k fs f
    using that keyed unfolding keyed_by_get [OF ok] sel
    by (auto simp: rekey_def rename_node_def hm_get_modify hm_get_remove split: option.splits if_splits)
  then show ?thesis
    using ok by (auto simp: keyed_by_get hm_keys_map_values hm_get_map_values)
qed

section \<open>Operations keep the invariant\<close>

lemma mirrored_new [simp]: "mirrored new_topology"
  by (simp add: mirrored_def new_topology_def keyed_by_def)

lemma topo_inv_new [simp]: "topo_inv new_topology"
  by (simp add: topo_inv_def endpoints_known_def new_topology_def)
     (simp add: mirrored_def keyed_by_def)

lemma add_node_sel [simp]:
  "upstream (add_node n d t) = upstream t" "downstream (add_node n d t) = downstream t"
  by (simp_all add: add_node_def)

lemma node_set_add_node [simp]: "node_set (add_node n d t) = insert n (node_set t)"
  by (auto simp: node_set_def add_node_def hm_keys_insert)

lemma flow_set_add_node [simp]: "flow_set (add_node n d t) = flow_set t"
  by (simp add: flow_set_def)

lemma get_add_node:
  "hm_get (nodes (add_node n d t)) m =
     (if m = n \<and> n \<notin> node_set t then Some d else hm_get (nodes t) m)"
  by (auto simp: add_node_def node_set_def hm_get_insert)

lemma mirrored_add_node [topo_pres]: "mirrored t \<Longrightarrow> mirrored (add_node n d t)"
  by (simp add: mirrored_def) (simp add: add_node_def)

lemma node_set_add_flow [simp]: "node_set (add_flow f t) = node_set t"
  by (simp add: node_set_def add_flow_def)

lemma nodes_add_flow [simp]: "nodes (add_flow f t) = nodes t"
  by (simp add: add_flow_def)

lemma flows_add_flow:
  assumes "mirrored t"
  shows "hm_elems (downstream (add_flow f t)) =
           hm_elems (downstream t) + (if f \<in> flow_set t then {#} else {#f#})"
    and "hm_elems (upstream (add_flow f t)) =
           hm_elems (downstream t) + (if f \<in> flow_set t then {#} else {#f#})"
  using assms
  by (simp_all add: mirrored_def add_flow_def flow_set_def hm_elems_push_new [where sel = source_node]
      hm_elems_push_new [where sel = destination_node])

lemma mirrored_add_flow [topo_pres]: "mirrored t \<Longrightarrow> mirrored (add_flow f t)"
  using flows_add_flow [of t f]
  by (simp add: mirrored_def) (simp add: add_flow_def keyed_push_new)

lemma flow_set_add_flow [simp]: "mirrored t \<Longrightarrow> flow_set (add_flow f t) = insert f (flow_set t)"
  using flows_add_flow(1) [of t f] by (auto simp: flow_set_def)

lemma add_k8s_event_sel [simp]:
  "upstream (add_k8s_event n e t) = upstream t" "downstream (add_k8s_event n e t) = downstream t"
  "node_set (add_k8s_event n e t) = node_set t"
  using hm_contains_get [of n "nodes t"]
  by (auto simp: add_k8s_event_def node_set_def hm_keys_insert split: option.split)

lemma mirrored_add_k8s_event [topo_pres]: "mirrored t \<Longrightarrow> mirrored (add_k8s_event n e t)"
  by (simp add: mirrored_def) (simp add: add_k8s_event_def split: option.split)

section \<open>What resolving a node does\<close>

text \<open>The shape of \<open>resolve_unknown_node\<close> once the stale node is found.\<close>

lemma resolve_unfold:
  assumes "hm_get (nodes t) (stale_id_of addr) = Some d"
  shows "resolve_unknown_node addr app ns t =
    (let stale = stale_id_of addr; resolved = mk_node app ns in
     \<lparr>nodes = hm_or_insert resolved d (hm_remove stale (nodes t)),
      upstream = hm_map_values (map (rename_flow stale resolved)) (rekey stale resolved (upstream t)),
      downstream = hm_map_values (map (rename_flow stale resolved)) (rekey stale resolved (downstream t)),
      \<dots> = topology.more t\<rparr>)"
  using assms hm_contains_get [of "stale_id_of addr" "nodes t"]
  by (simp add: resolve_unknown_node_def Let_def rewrite_flow_eq [abs_def])

lemma resolve_noop: "stale_id_of addr \<notin> node_set t \<Longrightarrow> resolve_unknown_node addr app ns t = t"
  by (simp add: resolve_unknown_node_def node_set_def)

lemma stale_data:
  assumes "stale_id_of addr \<in> node_set t"
  obtains d where "hm_get (nodes t) (stale_id_of addr) = Some d"
  using assms hm_contains_get [of "stale_id_of addr" "nodes t"] by (auto simp: node_set_def)

lemma flows_resolve:
  assumes "mirrored t" and "stale_id_of addr \<in> node_set t"
  shows "hm_elems (downstream (resolve_unknown_node addr app ns t)) =
           image_mset (rename_flow (stale_id_of addr) (mk_node app ns)) (hm_elems (downstream t))"
    and "hm_elems (upstream (resolve_unknown_node addr app ns t)) =
           image_mset (rename_flow (stale_id_of addr) (mk_node app ns)) (hm_elems (downstream t))"
proof -
  obtain d where d: "hm_get (nodes t) (stale_id_of addr) = Some d"
    using assms(2) by (rule stale_data)
  show "hm_elems (downstream (resolve_unknown_node addr app ns t)) =
          image_mset (rename_flow (stale_id_of addr) (mk_node app ns)) (hm_elems (downstream t))"
    and "hm_elems (upstream (resolve_unknown_node addr app ns t)) =
          image_mset (rename_flow (stale_id_of addr) (mk_node app ns)) (hm_elems (downstream t))"
    using assms(1)
    by (simp_all add: resolve_unfold [OF d] Let_def hm_elems_map_values hm_elems_rekey mirrored_def)
qed

lemma node_set_resolve:
  assumes "stale_id_of addr \<in> node_set t"
  shows "node_set (resolve_unknown_node addr app ns t) =
           rename_node (stale_id_of addr) (mk_node app ns) ` node_set t"
proof -
  obtain d where d: "hm_get (nodes t) (stale_id_of addr) = Some d"
    using assms by (rule stale_data)
  show ?thesis
    using assms unfolding resolve_unfold [OF d] Let_def node_set_def
    by (auto simp: rename_node_def hm_simps image_iff)
qed

lemma mirrored_resolve [topo_pres]:
  assumes "mirrored t"
  shows "mirrored (resolve_unknown_node addr app ns t)"
proof (cases "stale_id_of addr \<in> node_set t")
  case False
  then show ?thesis using assms by (simp add: resolve_noop)
next
  case True
  then obtain d where d: "hm_get (nodes t) (stale_id_of addr) = Some d" by (rule stale_data)
  show ?thesis
    using assms flows_resolve [OF assms True, of app ns] unfolding mirrored_def
    by (simp add: resolve_unfold [OF d] Let_def hm_keys_map_values keyed_rekey_rename)
qed

lemma endpoints_known_iff:
  "endpoints_known t \<longleftrightarrow>
     source_node ` flow_set t \<subseteq> node_set t \<and> destination_node ` flow_set t \<subseteq> node_set t"
  by (auto simp: endpoints_known_def flow_set_def node_set_def)

lemma endpoints_known_resolve:
  assumes "mirrored t" and "endpoints_known t"
  shows "endpoints_known (resolve_unknown_node addr app ns t)"
proof (cases "stale_id_of addr \<in> node_set t")
  case False
  then show ?thesis using assms by (simp add: resolve_noop)
next
  case True
  then show ?thesis
    using assms flows_resolve(1) [OF assms(1) True, of app ns] node_set_resolve [OF True, of app ns]
    by (auto simp: endpoints_known_iff flow_set_def)
qed

lemma topo_inv_mirrored: "topo_inv t \<Longrightarrow> mirrored t"
  by (simp add: topo_inv_def)

lemma topo_inv_resolve [topo_pres]: "topo_inv t \<Longrightarrow> topo_inv (resolve_unknown_node addr app ns t)"
  by (simp add: topo_inv_def mirrored_resolve endpoints_known_resolve)

lemma topo_inv_add_node [topo_pres]: "topo_inv t \<Longrightarrow> topo_inv (add_node n d t)"
  by (auto simp: topo_inv_def mirrored_add_node endpoints_known_iff)

lemma topo_inv_add_k8s_event [topo_pres]: "topo_inv t \<Longrightarrow> topo_inv (add_k8s_event n e t)"
  by (auto simp: topo_inv_def mirrored_add_k8s_event endpoints_known_iff flow_set_def)

lemma topo_inv_add_flow [topo_pres]:
  "topo_inv t \<Longrightarrow> source_node f \<in> node_set t \<Longrightarrow> destination_node f \<in> node_set t \<Longrightarrow>
     topo_inv (add_flow f t)"
  by (simp add: topo_inv_def mirrored_add_flow endpoints_known_iff)

section \<open>The interface the aggregators use\<close>

text \<open>
  The aggregators touch the graph only through these operations, and rely only on
  these laws: what each operation does to the node set and to the flow set, and
  that each keeps the invariant.
\<close>

locale graph_ops =
  fixes inv :: "'t \<Rightarrow> bool"
    and nodes_of :: "'t \<Rightarrow> node_id set"
    and flows_of :: "'t \<Rightarrow> flow set"
    and put_node :: "node_id \<Rightarrow> node_data \<Rightarrow> 't \<Rightarrow> 't"
    and put_flow :: "flow \<Rightarrow> 't \<Rightarrow> 't"
    and put_event :: "node_id \<Rightarrow> k8s_event \<Rightarrow> 't \<Rightarrow> 't"
    and heal :: "string \<Rightarrow> string \<Rightarrow> string \<Rightarrow> 't \<Rightarrow> 't"
  assumes inv_put_node: "inv t \<Longrightarrow> inv (put_node n d t)"
    and inv_put_flow: "inv t \<Longrightarrow> source_node f \<in> nodes_of t \<Longrightarrow> destination_node f \<in> nodes_of t \<Longrightarrow>
          inv (put_flow f t)"
    and inv_put_event: "inv t \<Longrightarrow> inv (put_event n e t)"
    and inv_heal: "inv t \<Longrightarrow> inv (heal a app ns t)"
    and nodes_put_node: "nodes_of (put_node n d t) = insert n (nodes_of t)"
    and nodes_put_flow: "nodes_of (put_flow f t) = nodes_of t"
    and nodes_heal: "stale_id_of a \<in> nodes_of t \<Longrightarrow>
          nodes_of (heal a app ns t) = rename_node (stale_id_of a) (mk_node app ns) ` nodes_of t"
    and flows_put_node: "flows_of (put_node n d t) = flows_of t"
    and flows_put_flow: "inv t \<Longrightarrow> flows_of (put_flow f t) = insert f (flows_of t)"
    and flows_heal: "inv t \<Longrightarrow> stale_id_of a \<in> nodes_of t \<Longrightarrow>
          flows_of (heal a app ns t) = rename_flow (stale_id_of a) (mk_node app ns) ` flows_of t"
    and heal_absent: "stale_id_of a \<notin> nodes_of t \<Longrightarrow> heal a app ns t = t"
    and flows_in_nodes: "inv t \<Longrightarrow> f \<in> flows_of t \<Longrightarrow>
          source_node f \<in> nodes_of t \<and> destination_node f \<in> nodes_of t"
begin

text \<open>Recording an edge: both endpoints first, then the flow.\<close>

lemma record_edge:
  fixes f :: flow and d1 d2 :: node_data
  assumes "inv t"
  defines "t' \<equiv> put_flow f (put_node (destination_node f) d2 (put_node (source_node f) d1 t))"
  shows "inv t'"
    and "nodes_of t' = nodes_of t \<union> {source_node f, destination_node f}"
    and "flows_of t' = insert f (flows_of t)"
  using assms
  by (auto simp: t'_def inv_put_node inv_put_flow nodes_put_node nodes_put_flow
      flows_put_node flows_put_flow)

lemma heal_removes_node:
  "mk_node app ns \<noteq> stale_id_of a \<Longrightarrow> stale_id_of a \<notin> nodes_of (heal a app ns t)"
  by (cases "stale_id_of a \<in> nodes_of t")
     (auto simp: nodes_heal heal_absent rename_node_def split: if_splits)

lemma heal_removes_endpoint:
  assumes "inv t" and "mk_node app ns \<noteq> stale_id_of a" and "f \<in> flows_of (heal a app ns t)"
  shows "source_node f \<noteq> stale_id_of a" and "destination_node f \<noteq> stale_id_of a"
  using flows_in_nodes [OF inv_heal [OF assms(1)] assms(3)] heal_removes_node [OF assms(2)] by metis+

lemma inv_heal_all: "inv t \<Longrightarrow> inv (fold (\<lambda>(a, app, ns). heal a app ns) hs t)"
  by (induction hs arbitrary: t) (auto simp: inv_heal)

end

interpretation topo: graph_ops topo_inv node_set flow_set add_node add_flow add_k8s_event resolve_unknown_node
proof unfold_locales
  fix t f
  assume "topo_inv t" and "f \<in> flow_set t"
  then show "source_node f \<in> node_set t \<and> destination_node f \<in> node_set t"
    by (auto simp: topo_inv_def endpoints_known_iff)
qed (auto simp: topo_pres node_set_resolve resolve_noop flow_set_def flows_resolve topo_inv_mirrored
      flow_set_add_flow [unfolded flow_set_def])

section \<open>Properties of the graph\<close>

lemma mirrored_apply_op: "mirrored t \<Longrightarrow> mirrored (apply_op op t)"
  by (cases op) (simp_all add: topo_pres)

lemma mirrored_fold_ops: "mirrored t \<Longrightarrow> mirrored (fold apply_op ops t)"
  by (induction ops arbitrary: t) (simp_all add: mirrored_apply_op)

lemma mirrored_run_ops: "mirrored (run_ops ops)"
  by (simp add: run_ops_def mirrored_fold_ops)

lemma abs_apply_op: "mirrored t \<Longrightarrow> abs_topo (apply_op op t) = spec_op op (abs_topo t)"
  by (cases op)
     (auto simp: abs_topo_def node_set_resolve resolve_noop flow_set_def flows_resolve
       flow_set_add_flow [unfolded flow_set_def])

lemma abs_fold_ops:
  "mirrored t \<Longrightarrow> abs_topo (fold apply_op ops t) = fold spec_op ops (abs_topo t)"
  by (induction ops arbitrary: t) (simp_all add: mirrored_apply_op abs_apply_op)

text \<open>C1. Whatever sequence of operations is applied to an empty topology, the three hash
  maps stand for the graph that the same operations build on plain sets of nodes and flows:
  \<open>add_node\<close> and \<open>add_flow\<close> are set insertions, a Kubernetes event changes neither set, and
  \<open>resolve_unknown_node\<close> renames the stale node everywhere at once.\<close>

theorem topology_refines_graph:
  "abs_topo (run_ops ops) = fold spec_op ops \<lparr>graph_nodes = {}, graph_flows = {}\<rparr>"
proof -
  have "abs_topo new_topology = \<lparr>graph_nodes = {}, graph_flows = {}\<rparr>"
    by (simp add: abs_topo_def node_set_def flow_set_def new_topology_def)
  then show ?thesis by (simp add: run_ops_def abs_fold_ops)
qed

text \<open>C2. After any sequence of operations the two indices answer from the same flows:
  \<open>upstream\<close> of a node holds exactly the recorded flows into it, \<open>downstream\<close> exactly those
  out of it, and each flow is in both indices equally often.\<close>

theorem topology_indices_agree:
  "set (hm_vec (upstream (run_ops ops)) n) = {f \<in> flow_set (run_ops ops). destination_node f = n} \<and>
   set (hm_vec (downstream (run_ops ops)) n) = {f \<in> flow_set (run_ops ops). source_node f = n} \<and>
   hm_elems (upstream (run_ops ops)) = hm_elems (downstream (run_ops ops))"
  using mirrored_run_ops [of ops]
  by (simp add: mirrored_def keyed_vec_elems [where sel = destination_node]
      keyed_vec_elems [where sel = source_node] flow_set_def)

lemma half_resolved_mirrored: "mirrored half_resolved"
  by (simp add: half_resolved_def mirrored_run_ops)

lemma half_resolved_inv: "topo_inv half_resolved"
proof -
  have "endpoints_known half_resolved" by code_simp
  then show ?thesis by (simp add: topo_inv_def half_resolved_mirrored)
qed

lemma half_resolved_stale: "stale_id_of ''10.0.0.2'' \<in> node_set half_resolved"
  by code_simp

text \<open>C3. Resolving a stale node moves its data to the resolved identity, unless that
  identity is a node already, which then keeps its own data; the stale identity is gone
  (if it differs from the resolved one) and every other node keeps its data.\<close>

theorem resolve_node_data:
  assumes "hm_get (nodes t) (stale_id_of addr) = Some d"
  shows "hm_get (nodes (resolve_unknown_node addr app ns t)) n =
    (if n = mk_node app ns
     then (if n = stale_id_of addr then Some d
           else case hm_get (nodes t) n of None \<Rightarrow> Some d | Some own \<Rightarrow> Some own)
     else if n = stale_id_of addr then None
     else hm_get (nodes t) n)"
  by (auto simp: resolve_unfold [OF assms] Let_def hm_simps split: option.split)

theorem resolve_node_data_witness:
  "hm_get (nodes (resolve_unknown_node ''10.0.0.2'' ''svc-c'' ''default'' half_resolved))
     (mk_node ''svc-c'' ''default'') = Some (node_data_of_ip ''10.0.0.2'')"
proof -
  have stale: "hm_get (nodes half_resolved) (stale_id_of ''10.0.0.2'') = Some (node_data_of_ip ''10.0.0.2'')"
    by code_simp
  have new: "hm_get (nodes half_resolved) (mk_node ''svc-c'' ''default'') = None"
    by code_simp
  show ?thesis
    using resolve_node_data [OF stale, of "''svc-c''" "''default''" "mk_node ''svc-c'' ''default''"] new
    by (simp add: stale_id_of_def)
qed

text \<open>Healing is complete: after \<open>resolve_unknown_node\<close> the raw-address node is neither a
  node nor an endpoint of any flow in either index, and the topology is still well formed.\<close>

theorem resolve_heals:
  assumes "topo_inv t" and "mk_node app ns \<noteq> stale_id_of addr"
  defines "t' \<equiv> resolve_unknown_node addr app ns t"
  shows "topo_inv t' \<and> stale_id_of addr \<notin> node_set t' \<and>
    (\<forall>n. \<forall>f \<in> set (hm_vec (upstream t') n) \<union> set (hm_vec (downstream t') n).
       source_node f \<noteq> stale_id_of addr \<and> destination_node f \<noteq> stale_id_of addr)"
proof -
  have inv: "topo_inv t'" unfolding t'_def using assms(1) by (rule topo.inv_heal)
  then have "set (hm_vec (upstream t') n) \<union> set (hm_vec (downstream t') n) \<subseteq> flow_set t'" for n
    by (auto simp: topo_inv_def mirrored_def keyed_vec_elems [where sel = destination_node]
        keyed_vec_elems [where sel = source_node] flow_set_def)
  then show ?thesis
    using inv topo.heal_removes_node [OF assms(2), of t]
      topo.heal_removes_endpoint [OF assms(1,2)] unfolding t'_def by blast
qed

theorem resolve_heals_witness:
  "stale_id_of ''10.0.0.2'' \<in> node_set half_resolved \<and>
   stale_id_of ''10.0.0.2'' \<notin>
     node_set (resolve_unknown_node ''10.0.0.2'' ''svc-b'' ''default'' half_resolved)"
  using resolve_heals [OF half_resolved_inv, of "''svc-b''" "''default''" "''10.0.0.2''"] half_resolved_stale
  by (simp add: stale_id_of_def)

text \<open>C5. \<open>add_flow\<close> never records a flow twice, but \<open>resolve_unknown_node\<close> does not test for
  duplicates when it merges vectors: the flows stay distinct exactly when no two recorded
  flows become equal by the renaming.\<close>

theorem flows_distinct_iff:
  assumes "mirrored t" and "flows_distinct t" and "stale_id_of addr \<in> node_set t"
  shows "flows_distinct (add_flow f t) \<and>
    (flows_distinct (resolve_unknown_node addr app ns t) \<longleftrightarrow>
       inj_on (rename_flow (stale_id_of addr) (mk_node app ns)) (flow_set t))"
proof -
  let ?xs = "concat (map snd (downstream t))"
  let ?r = "rename_flow (stale_id_of addr) (mk_node app ns)"
  have fs: "flow_set t = set ?xs" by (simp add: flow_set_def hm_elems_def)
  have "mset (concat (map snd (downstream (add_flow f t)))) = mset (?xs @ (if f \<in> set ?xs then [] else [f]))"
    using flows_add_flow(1) [OF assms(1), of f] fs by (simp add: hm_elems_def)
  from mset_eq_imp_distinct_iff [OF this] have "flows_distinct (add_flow f t)"
    using assms(2) by (simp add: flows_distinct_def)
  moreover have "mset (concat (map snd (downstream (resolve_unknown_node addr app ns t)))) = mset (map ?r ?xs)"
    using flows_resolve(1) [OF assms(1,3), of app ns] by (simp add: hm_elems_def)
  from mset_eq_imp_distinct_iff [OF this]
  have "flows_distinct (resolve_unknown_node addr app ns t) \<longleftrightarrow> inj_on ?r (flow_set t)"
    using assms(2) fs by (simp add: flows_distinct_def distinct_map)
  ultimately show ?thesis by simp
qed

theorem flows_distinct_iff_witness:
  "flows_distinct half_resolved \<and>
   \<not> flows_distinct (resolve_unknown_node ''10.0.0.2'' ''svc-b'' ''default'' half_resolved)"
proof -
  let ?f = "test_flow ''svc-a'' ''default'' ''svc-b'' ''default''"
  let ?g = "test_flow ''svc-a'' ''default'' ''10.0.0.2'' ''unknown''"
  let ?r = "rename_flow (stale_id_of ''10.0.0.2'') (mk_node ''svc-b'' ''default'')"
  have d: "flows_distinct half_resolved" by code_simp
  have "?f \<in> flow_set half_resolved" "?g \<in> flow_set half_resolved" "?f \<noteq> ?g" "?r ?f = ?r ?g"
    by code_simp+
  then have "\<not> inj_on ?r (flow_set half_resolved)" by (auto simp: inj_on_def)
  then show ?thesis
    using flows_distinct_iff [OF half_resolved_mirrored d half_resolved_stale, of ?f "''svc-b''" "''default''"] d
    by simp
qed

end
