(* ===== verification/Subgraph.thy ===== *)
theory Subgraph
  imports Topology
begin

text \<open>
  The sub-graph query of \<^verbatim>\<open>core/src/topology/topology.rs\<close>: a breadth-first search
  along downstream flows from one service, bounded in depth, and the flows that
  stay visible. The search is proved to visit exactly the services within the
  given number of calls, and to keep one tree edge per visited service.
\<close>

section \<open>The search\<close>

type_synonym bfs_state = "node_id hash_set \<times> (node_id \<times> node_id) hash_set \<times> node_id list"

text \<open>The innermost loop body: one flow of the node that is being expanded.\<close>

definition visit_flow :: "node_id \<Rightarrow> flow \<Rightarrow> bfs_state \<Rightarrow> bfs_state" where
  "visit_flow node f = (\<lambda>(visited, bfs_edges, nxt).
     let dst = destination_node f in
     if dst \<notin> set visited
     then (snd (hs_insert dst visited), snd (hs_insert (node, dst) bfs_edges), nxt @ [dst])
     else (visited, bfs_edges, nxt))"

definition expand_node :: "topology \<Rightarrow> node_id \<Rightarrow> bfs_state \<Rightarrow> bfs_state" where
  "expand_node t node s =
     (case hm_get (downstream t) node of None \<Rightarrow> s | Some flows \<Rightarrow> fold (visit_flow node) flows s)"

text \<open>The outer loop: at most \<open>depth\<close> rounds, left early when the frontier is empty.\<close>

fun bfs_loop :: "topology \<Rightarrow> nat \<Rightarrow> node_id list \<Rightarrow> node_id hash_set \<Rightarrow> (node_id \<times> node_id) hash_set
    \<Rightarrow> node_id hash_set \<times> (node_id \<times> node_id) hash_set" where
  "bfs_loop t 0 frontier visited bfs_edges = (visited, bfs_edges)"
| "bfs_loop t (Suc d) frontier visited bfs_edges =
     (if frontier = [] then (visited, bfs_edges)
      else (case fold (expand_node t) frontier (visited, bfs_edges, []) of
              (visited', bfs_edges', nxt) \<Rightarrow> bfs_loop t d nxt visited' bfs_edges'))"

definition bfs :: "topology \<Rightarrow> node_id \<Rightarrow> u32 \<Rightarrow> node_id hash_set \<times> (node_id \<times> node_id) hash_set" where
  "bfs t root depth = bfs_loop t (unat depth) [root] [root] []"

section \<open>The visible sub-graph\<close>

record subgraph_result =
  sg_nodes :: "node_id hash_set"
  sg_upstream :: "(node_id, flow list) hash_map"
  sg_downstream :: "(node_id, flow list) hash_map"

text \<open>\<open>flows.iter().filter(..).cloned().collect()\<close>, with nothing for a missing key.\<close>

definition tree_flows :: "(flow \<Rightarrow> bool) \<Rightarrow> (node_id, flow list) hash_map \<Rightarrow> node_id \<Rightarrow> flow list" where
  "tree_flows keep m node = (case hm_get m node of None \<Rightarrow> [] | Some flows \<Rightarrow> filter keep flows)"

text \<open>The body of the loop over the visited nodes.\<close>

definition add_tree_flows :: "topology \<Rightarrow> node_id \<Rightarrow> (node_id \<times> node_id) hash_set \<Rightarrow> node_id
    \<Rightarrow> (node_id, flow list) hash_map \<times> (node_id, flow list) hash_map
    \<Rightarrow> (node_id, flow list) hash_map \<times> (node_id, flow list) hash_map" where
  "add_tree_flows t root bfs_edges node = (\<lambda>(vis_up, vis_down).
     if node = root then (vis_up, vis_down)
     else
       let in_flows = tree_flows (\<lambda>f. (source_node f, node) \<in> set bfs_edges) (upstream t) node;
           vis_up' = (if in_flows \<noteq> [] then hm_insert node in_flows vis_up else vis_up);
           out_flows = tree_flows (\<lambda>f. (node, destination_node f) \<in> set bfs_edges) (downstream t) node;
           vis_down' = (if out_flows \<noteq> [] then hm_insert node out_flows vis_down else vis_down)
       in (vis_up', vis_down'))"

definition root_flows :: "node_id \<Rightarrow> (node_id, flow list) hash_map \<Rightarrow> (node_id, flow list) hash_map" where
  "root_flows root m = (case hm_get m root of None \<Rightarrow> [] | Some flows \<Rightarrow> hm_insert root flows [])"

definition get_subgraph :: "topology \<Rightarrow> string \<Rightarrow> string \<Rightarrow> u32 \<Rightarrow> subgraph_result" where
  "get_subgraph t root_app root_ns depth =
     (let root = mk_node root_app root_ns in
      if \<not> hm_contains (nodes t) root
      then \<lparr>sg_nodes = [], sg_upstream = [], sg_downstream = []\<rparr>
      else
        let (visited, bfs_edges) = bfs t root depth;
            all_nodes = (case hm_get (upstream t) root of
                           None \<Rightarrow> visited
                         | Some inflows \<Rightarrow> fold (\<lambda>f s. snd (hs_insert (source_node f) s)) inflows visited);
            (vis_up, vis_down) =
              fold (add_tree_flows t root bfs_edges) visited
                (root_flows root (upstream t), root_flows root (downstream t))
        in \<lparr>sg_nodes = all_nodes, sg_upstream = vis_up, sg_downstream = vis_down\<rparr>)"

section \<open>Reachability\<close>

text \<open>Who calls whom: the pairs (caller, callee) of the recorded flows.\<close>

definition calls :: "topology \<Rightarrow> (node_id \<times> node_id) set" where
  "calls t = {(n, destination_node f) | n f. f \<in> set (hm_vec (downstream t) n)}"

text \<open>The services at most \<open>d\<close> calls away from one of the given ones.\<close>

fun within :: "topology \<Rightarrow> node_id set \<Rightarrow> nat \<Rightarrow> node_id set" where
  "within t S 0 = S"
| "within t S (Suc d) = within t (S \<union> calls t `` S) d"

lemma within_mono: "S \<subseteq> within t S d"
  by (induction d arbitrary: S) (simp, force)

lemma within_closed: "calls t `` S \<subseteq> S \<Longrightarrow> within t S d = S"
  by (induction d) (auto simp: Un_absorb2)

lemma UN_with_next: "(\<Union>i \<in> {..d}. A i \<union> A (Suc i)) = (\<Union>i \<in> {..Suc d}. A i)"
  by (induction d) (auto simp: atMost_Suc)

lemma within_relpow: "within t S d = (\<Union>i \<in> {..d}. (calls t ^^ i) `` S)"
proof (induction d arbitrary: S)
  case 0
  then show ?case by simp
next
  case (Suc d)
  have step: "(calls t ^^ i) `` (calls t `` S) = (calls t ^^ Suc i) `` S" for i
    by (metis relcomp_Image relpow_commute relpow.simps(2))
  have "within t S (Suc d) = (\<Union>i \<in> {..d}. (calls t ^^ i) `` S \<union> (calls t ^^ Suc i) `` S)"
    using Suc.IH [of "S \<union> calls t `` S"] step by (simp add: Image_Un)
  also have "\<dots> = (\<Union>i \<in> {..Suc d}. (calls t ^^ i) `` S)"
    by (rule UN_with_next)
  finally show ?case .
qed

lemma within_Suc: "within t S (Suc d) = within t S d \<union> calls t `` within t S d"
  by (induction d arbitrary: S) simp_all

lemma calls_flow_set:
  assumes "mirrored t"
  shows "calls t = (\<lambda>f. (source_node f, destination_node f)) ` flow_set t"
proof -
  have "f \<in> set (hm_vec (downstream t) n) \<longleftrightarrow> f \<in> flow_set t \<and> source_node f = n" for f n
    using assms by (simp add: mirrored_def keyed_vec_elems [where sel = source_node] flow_set_def)
  then show ?thesis by (auto simp: calls_def)
qed

lemma in_calls: "mirrored t \<Longrightarrow> f \<in> flow_set t \<Longrightarrow> (source_node f, destination_node f) \<in> calls t"
  by (simp add: calls_flow_set)

lemma finite_calls: "mirrored t \<Longrightarrow> finite (calls t)"
  by (simp add: calls_flow_set flow_set_def)

lemma card_calls_le:
  assumes "mirrored t"
  shows "card (calls t) \<le> length (concat (map snd (downstream t)))"
proof -
  let ?pairs = "map (\<lambda>f. (source_node f, destination_node f)) (concat (map snd (downstream t)))"
  have "calls t = set ?pairs"
    using calls_flow_set [OF assms] by (simp add: flow_set_def hm_elems_def)
  then have "card (calls t) \<le> length ?pairs" by (simp only: card_length)
  then show ?thesis by (simp only: length_map)
qed

section \<open>Search trees\<close>

text \<open>
  The pairs recorded so far form a tree below the root on the visited nodes:
  every edge is a call between visited nodes, and every visited node but the
  root has exactly one parent.
\<close>

definition search_tree :: "topology \<Rightarrow> node_id \<Rightarrow> node_id set \<Rightarrow> (node_id \<times> node_id) set \<Rightarrow> bool" where
  "search_tree t root V E \<longleftrightarrow>
     root \<in> V \<and> E \<subseteq> calls t \<and> E \<subseteq> V \<times> (V - {root}) \<and> (\<forall>c \<in> V - {root}. \<exists>!p. (p, c) \<in> E)"

lemma search_tree_insert:
  assumes "search_tree t root V E" and "p \<in> V" and "c \<notin> V" and "(p, c) \<in> calls t"
  shows "search_tree t root (insert c V) (insert (p, c) E)"
  using assms unfolding search_tree_def by (intro conjI ballI) (blast | auto)+

text \<open>What holds in the middle of a round, with \<open>V0\<close> visited before it and frontier \<open>F\<close>.\<close>

definition round_inv :: "topology \<Rightarrow> node_id \<Rightarrow> node_id set \<Rightarrow> (node_id \<times> node_id) set \<Rightarrow> node_id set
    \<Rightarrow> bfs_state \<Rightarrow> bool" where
  "round_inv t root V0 E0 F = (\<lambda>(V, E, N).
     search_tree t root (set V) (set E) \<and> set V = V0 \<union> set N \<and> set N \<inter> V0 = {} \<and>
     E0 \<subseteq> set E \<and> set E - E0 \<subseteq> F \<times> set N)"

lemma visit_flow_round:
  assumes "round_inv t root V0 E0 F (V, E, N)" and "node \<in> F" and "F \<subseteq> V0"
    and "(node, destination_node f) \<in> calls t"
    and "visit_flow node f (V, E, N) = (V', E', N')"
  shows "round_inv t root V0 E0 F (V', E', N') \<and> set V' = insert (destination_node f) (set V)"
proof (cases "destination_node f \<in> set V")
  case True
  then show ?thesis using assms by (auto simp: visit_flow_def Let_def)
next
  case False
  then have st: "V' = List.insert (destination_node f) V" "E' = List.insert (node, destination_node f) E"
    "N' = N @ [destination_node f]"
    using assms(5) by (auto simp: visit_flow_def Let_def)
  have "search_tree t root (insert (destination_node f) (set V)) (insert (node, destination_node f) (set E))"
    using assms False by (intro search_tree_insert) (auto simp: round_inv_def)
  then show ?thesis using assms False by (auto simp: round_inv_def st)
qed

lemma visit_flows_round:
  assumes "round_inv t root V0 E0 F (V, E, N)" and "node \<in> F" and "F \<subseteq> V0"
    and "\<forall>f \<in> set fs. (node, destination_node f) \<in> calls t"
    and "fold (visit_flow node) fs (V, E, N) = (V', E', N')"
  shows "round_inv t root V0 E0 F (V', E', N') \<and> set V' = set V \<union> destination_node ` set fs"
  using assms
proof (induction fs arbitrary: V E N)
  case Nil
  then show ?case by simp
next
  case (Cons f fs)
  obtain V1 E1 N1 where s: "visit_flow node f (V, E, N) = (V1, E1, N1)" by (metis prod_cases3)
  have "round_inv t root V0 E0 F (V1, E1, N1) \<and> set V1 = insert (destination_node f) (set V)"
    using Cons.prems s by (intro visit_flow_round) auto
  with Cons.IH [of V1 E1 N1] Cons.prems s show ?case by simp
qed

lemma expand_node_round:
  assumes "round_inv t root V0 E0 F (V, E, N)" and "node \<in> F" and "F \<subseteq> V0"
    and "expand_node t node (V, E, N) = (V', E', N')"
  shows "round_inv t root V0 E0 F (V', E', N') \<and> set V' = set V \<union> calls t `` {node}"
proof -
  have fs: "fold (visit_flow node) (hm_vec (downstream t) node) (V, E, N) = (V', E', N')"
    using assms(4) by (simp add: expand_node_def split: option.splits)
  moreover have "calls t `` {node} = destination_node ` set (hm_vec (downstream t) node)"
    by (auto simp: calls_def)
  ultimately show ?thesis
    using visit_flows_round [OF assms(1-3) _ fs] by (auto simp: calls_def)
qed

text \<open>One round adds the callees of the frontier, and its next frontier is what is new.\<close>

lemma expand_frontier_round:
  assumes "round_inv t root V0 E0 F (V, E, N)" and "set fr \<subseteq> F" and "F \<subseteq> V0"
    and "fold (expand_node t) fr (V, E, N) = (V', E', N')"
  shows "round_inv t root V0 E0 F (V', E', N') \<and> set V' = set V \<union> calls t `` set fr"
  using assms
proof (induction fr arbitrary: V E N)
  case Nil
  then show ?case by simp
next
  case (Cons n fr)
  obtain V1 E1 N1 where s: "expand_node t n (V, E, N) = (V1, E1, N1)" by (metis prod_cases3)
  have "round_inv t root V0 E0 F (V1, E1, N1) \<and> set V1 = set V \<union> calls t `` {n}"
    using Cons.prems s by (intro expand_node_round) auto
  with Cons.IH [of V1 E1 N1] Cons.prems s show ?case by auto
qed

section \<open>The loop\<close>

text \<open>An edge that goes from distance \<open>j\<close> to distance \<open>j + 1\<close>, for some \<open>j\<close> from \<open>i\<close> below \<open>k\<close>.\<close>

definition level_edge :: "topology \<Rightarrow> node_id \<Rightarrow> nat \<Rightarrow> nat \<Rightarrow> node_id \<times> node_id \<Rightarrow> bool" where
  "level_edge t root i k = (\<lambda>(p, c). \<exists>j. i \<le> j \<and> j < k \<and>
     p \<in> within t {root} j \<and> c \<in> within t {root} (Suc j) - within t {root} j)"

lemma within_add_closed: "calls t `` within t S i \<subseteq> within t S i \<Longrightarrow> within t S (i + d) = within t S i"
  by (induction d) (auto simp: within_Suc simp del: within.simps)

lemma Image_frontier: "F \<subseteq> V \<Longrightarrow> R `` (V - F) \<subseteq> V \<Longrightarrow> V \<union> R `` F = V \<union> R `` V"
  by (auto simp: subset_iff Image_iff)

lemma bfs_round:
  assumes "search_tree t root (set V) (set E)" and fr: "set fr \<subseteq> set V"
    and cl: "calls t `` (set V - set fr) \<subseteq> set V" and V: "set V = within t {root} i"
    and round: "fold (expand_node t) fr (V, E, []) = (V1, E1, N)"
  shows "search_tree t root (set V1) (set E1) \<and> set N \<subseteq> set V1 \<and>
    calls t `` (set V1 - set N) \<subseteq> set V1 \<and> set V1 = within t {root} (Suc i) \<and>
    set E \<subseteq> set E1 \<and> (\<forall>e \<in> set E1 - set E. level_edge t root i (Suc i) e)"
proof -
  have "round_inv t root (set V) (set E) (set fr) (V, E, [])"
    using assms(1) by (simp add: round_inv_def)
  from expand_frontier_round [OF this _ fr round]
  have inv: "round_inv t root (set V) (set E) (set fr) (V1, E1, N)"
    and "set V1 = set V \<union> calls t `` set fr" by simp_all
  then have V1: "set V1 = set V \<union> calls t `` set V"
    using Image_frontier [OF fr cl] by simp
  have V1': "set V1 = within t {root} (Suc i)"
    by (simp only: V1 within_Suc V)
  have "set V1 - set N \<subseteq> set V" using inv by (auto simp: round_inv_def)
  then have "calls t `` (set V1 - set N) \<subseteq> calls t `` set V" by blast
  then have "calls t `` (set V1 - set N) \<subseteq> set V1" using V1 by blast
  moreover have "level_edge t root i (Suc i) (p, c)" if e: "(p, c) \<in> set E1 - set E" for p c
  proof -
    have "p \<in> set V" "c \<in> set V1 - set V" using e inv fr by (auto simp: round_inv_def)
    then show ?thesis unfolding level_edge_def V V1' by auto
  qed
  ultimately show ?thesis using inv V1' by (auto simp: round_inv_def)
qed

lemma level_edge_widen: "level_edge t root i k e \<Longrightarrow> i' \<le> i \<Longrightarrow> k \<le> k' \<Longrightarrow> level_edge t root i' k' e"
  by (auto simp: level_edge_def simp del: within.simps intro: le_trans order.strict_trans2)

lemma bfs_loop_correct:
  assumes "search_tree t root (set V) (set E)" and "set fr \<subseteq> set V"
    and "calls t `` (set V - set fr) \<subseteq> set V" and "set V = within t {root} i"
    and "bfs_loop t d fr V E = (V', E')"
  shows "set V' = within t {root} (i + d) \<and> search_tree t root (set V') (set E') \<and>
         set E \<subseteq> set E' \<and> (\<forall>e \<in> set E' - set E. level_edge t root i (i + d) e)"
  using assms
proof (induction d arbitrary: i fr V E)
  case 0
  then show ?case by simp
next
  case (Suc d)
  show ?case
  proof (cases "fr = []")
    case True
    then show ?thesis
      using Suc.prems within_add_closed [of t "{root}" i "Suc d"] by simp
  next
    case False
    obtain V1 E1 N where round: "fold (expand_node t) fr (V, E, []) = (V1, E1, N)" by (metis prod_cases3)
    note r = bfs_round [OF Suc.prems(1-4) round]
    have ih: "set V' = within t {root} (Suc i + d) \<and> search_tree t root (set V') (set E') \<and>
        set E1 \<subseteq> set E' \<and> (\<forall>e \<in> set E' - set E1. level_edge t root (Suc i) (Suc i + d) e)"
    proof (rule Suc.IH)
      show "bfs_loop t d N V1 E1 = (V', E')" using Suc.prems(5) False round by simp
    qed (use r in blast)+
    then have "level_edge t root i (i + Suc d) e" if "e \<in> set E' - set E" for e
      using that r level_edge_widen [of t root i "Suc i" e i "i + Suc d"]
        level_edge_widen [of t root "Suc i" "Suc i + d" e i "i + Suc d"] by fastforce
    then show ?thesis using ih r by auto
  qed
qed

lemma bfs_correct:
  assumes "bfs t root depth = (V, E)"
  shows "set V = within t {root} (unat depth)" and "search_tree t root (set V) (set E)"
    and "\<forall>e \<in> set E. level_edge t root 0 (unat depth) e"
proof -
  have "search_tree t root (set [root]) (set [])" by (simp add: search_tree_def)
  moreover have "bfs_loop t (unat depth) [root] [root] [] = (V, E)" using assms by (simp add: bfs_def)
  ultimately have "set V = within t {root} (0 + unat depth) \<and> search_tree t root (set V) (set E) \<and>
      set [] \<subseteq> set E \<and> (\<forall>e \<in> set E - set []. level_edge t root 0 (0 + unat depth) e)"
    by (intro bfs_loop_correct) auto
  then show "set V = within t {root} (unat depth)" "search_tree t root (set V) (set E)"
    "\<forall>e \<in> set E. level_edge t root 0 (unat depth) e" by auto
qed

section \<open>The parts of the answer\<close>

lemma set_fold_hs_insert: "set (fold (\<lambda>f s. snd (hs_insert (g f) s)) fs s) = set s \<union> g ` set fs"
  by (induction fs arbitrary: s) auto

lemma fold_tree_flows_other:
  "n \<notin> set vs \<or> n = root \<Longrightarrow> fold (add_tree_flows t root E) vs (U, D) = (U', D') \<Longrightarrow>
     hm_get U' n = hm_get U n \<and> hm_get D' n = hm_get D n"
proof (induction vs arbitrary: U D)
  case Nil
  then show ?case by simp
next
  case (Cons v vs)
  obtain U1 D1 where s: "add_tree_flows t root E v (U, D) = (U1, D1)" by (metis surj_pair)
  have "hm_get U1 n = hm_get U n \<and> hm_get D1 n = hm_get D n"
    using s Cons.prems(1)
    by (auto simp: add_tree_flows_def Let_def hm_get_insert split: if_splits)
  moreover have "hm_get U' n = hm_get U1 n \<and> hm_get D' n = hm_get D1 n"
    using Cons.IH [of U1 D1] Cons.prems s by auto
  ultimately show ?case by simp
qed

text \<open>A visited node other than the root gets its tree flows, whatever the visiting order.\<close>

lemma fold_tree_flows_visited:
  assumes "n \<in> set vs" and "n \<noteq> root" and "hm_vec U n = [] \<or> hm_vec U n = tree_flows (\<lambda>f. (source_node f, n) \<in> set E) (upstream t) n"
    and "hm_vec D n = [] \<or> hm_vec D n = tree_flows (\<lambda>f. (n, destination_node f) \<in> set E) (downstream t) n"
    and "fold (add_tree_flows t root E) vs (U, D) = (U', D')"
  shows "hm_vec U' n = tree_flows (\<lambda>f. (source_node f, n) \<in> set E) (upstream t) n \<and>
         hm_vec D' n = tree_flows (\<lambda>f. (n, destination_node f) \<in> set E) (downstream t) n"
  using assms
proof (induction vs arbitrary: U D)
  case Nil
  then show ?case by simp
next
  case (Cons v vs)
  obtain U1 D1 where s: "add_tree_flows t root E v (U, D) = (U1, D1)" by (metis surj_pair)
  have rest: "fold (add_tree_flows t root E) vs (U1, D1) = (U', D')"
    using Cons.prems(5) s by simp
  show ?case
  proof (cases "v = n")
    case True
    then have here: "hm_vec U1 n = tree_flows (\<lambda>f. (source_node f, n) \<in> set E) (upstream t) n \<and>
        hm_vec D1 n = tree_flows (\<lambda>f. (n, destination_node f) \<in> set E) (downstream t) n"
      using s Cons.prems(2-4)
      by (auto simp: add_tree_flows_def Let_def hm_get_insert split: if_splits)
    show ?thesis
    proof (cases "n \<in> set vs")
      case True
      then show ?thesis using Cons.IH [OF True Cons.prems(2) _ _ rest] here by simp
    next
      case False
      then show ?thesis using fold_tree_flows_other [OF _ rest, of n] here by simp
    qed
  next
    case False
    then have "hm_get U1 n = hm_get U n \<and> hm_get D1 n = hm_get D n"
      using s by (auto simp: add_tree_flows_def Let_def hm_get_insert split: if_splits)
    then show ?thesis
      using Cons.IH [OF _ Cons.prems(2) _ _ rest] Cons.prems(1,3,4) False by simp
  qed
qed

lemma hm_get_root_flows: "hm_get (root_flows root m) n = (if n = root then hm_get m root else None)"
  by (simp add: root_flows_def split: option.split)

text \<open>The answer, read through its three fields.\<close>

lemma get_subgraph_fields:
  assumes "mk_node app ns \<in> node_set t" and "bfs t (mk_node app ns) depth = (V, E)"
  defines "root \<equiv> mk_node app ns" and "sg \<equiv> get_subgraph t app ns depth"
  shows "set (sg_nodes sg) = set V \<union> source_node ` set (hm_vec (upstream t) root)"
    and "hm_vec (sg_upstream sg) n =
      (if n = root then hm_vec (upstream t) root
       else if n \<in> set V then tree_flows (\<lambda>f. (source_node f, n) \<in> set E) (upstream t) n else [])"
    and "hm_vec (sg_downstream sg) n =
      (if n = root then hm_vec (downstream t) root
       else if n \<in> set V then tree_flows (\<lambda>f. (n, destination_node f) \<in> set E) (downstream t) n else [])"
proof -
  obtain U D where f: "fold (add_tree_flows t root E) V (root_flows root (upstream t), root_flows root (downstream t)) = (U, D)"
    by (metis surj_pair)
  have sg: "sg = \<lparr>sg_nodes = (case hm_get (upstream t) root of None \<Rightarrow> V
      | Some inflows \<Rightarrow> fold (\<lambda>f s. snd (hs_insert (source_node f) s)) inflows V),
      sg_upstream = U, sg_downstream = D\<rparr>"
    using assms(1,2) f unfolding sg_def root_def
    by (simp add: get_subgraph_def Let_def node_set_def del: hs_insert_simps)
  show "set (sg_nodes sg) = set V \<union> source_node ` set (hm_vec (upstream t) root)"
    by (simp add: sg set_fold_hs_insert split: option.split del: hs_insert_simps)
  show "hm_vec (sg_upstream sg) n =
      (if n = root then hm_vec (upstream t) root
       else if n \<in> set V then tree_flows (\<lambda>f. (source_node f, n) \<in> set E) (upstream t) n else [])"
    and "hm_vec (sg_downstream sg) n =
      (if n = root then hm_vec (downstream t) root
       else if n \<in> set V then tree_flows (\<lambda>f. (n, destination_node f) \<in> set E) (downstream t) n else [])"
    using fold_tree_flows_other [OF _ f, of n] fold_tree_flows_visited [OF _ _ _ _ f, of n]
    by (auto simp: sg hm_get_root_flows)
qed

lemma get_subgraph_absent:
  "mk_node app ns \<notin> node_set t \<Longrightarrow>
     get_subgraph t app ns depth = \<lparr>sg_nodes = [], sg_upstream = [], sg_downstream = []\<rparr>"
  by (simp add: get_subgraph_def node_set_def Let_def)

lemma set_tree_flows: "set (tree_flows keep m n) = {f \<in> set (hm_vec m n). keep f}"
  by (auto simp: tree_flows_def split: option.splits)

lemmas mirrored_vecs =
  keyed_vec_elems [where sel = destination_node] keyed_vec_elems [where sel = source_node]

lemma mirrored_vec_sets:
  assumes "mirrored t"
  shows "set (hm_vec (upstream t) n) = {f \<in> flow_set t. destination_node f = n}"
    and "set (hm_vec (downstream t) n) = {f \<in> flow_set t. source_node f = n}"
  using assms by (simp_all add: mirrored_def mirrored_vecs flow_set_def)

section \<open>The graph of the tests\<close>

lemma mirrored_make_graph: "mirrored make_graph"
  by (simp add: make_graph_def topo_pres)

lemma svc_a_known: "mk_node ''svc-a'' ''ns'' \<in> node_set make_graph"
  by code_simp

lemma svc_c_two_calls_away: "mk_node ''svc-c'' ''ns'' \<in> within make_graph {mk_node ''svc-a'' ''ns''} (unat (2 :: u32))"
proof -
  have "mk_node ''svc-c'' ''ns'' \<in> set (fst (bfs make_graph (mk_node ''svc-a'' ''ns'') 2))"
    by code_simp
  then show ?thesis
    using bfs_correct(1) [of make_graph "mk_node ''svc-a'' ''ns''" 2] by (metis prod.collapse)
qed

lemma in_Un_source:
  "n \<in> A \<union> {source_node f | f. f \<in> F \<and> P f} \<Longrightarrow> \<forall>f \<in> F. source_node f \<noteq> n \<Longrightarrow> n \<in> A"
  by blast

section \<open>Properties of the query\<close>

lemma set_sg_nodes:
  "set (sg_nodes (get_subgraph t app ns depth)) =
    (if mk_node app ns \<in> node_set t
     then (\<Union>i \<in> {..unat depth}. (calls t ^^ i) `` {mk_node app ns}) \<union>
          source_node ` set (hm_vec (upstream t) (mk_node app ns))
     else {})"
proof (cases "mk_node app ns \<in> node_set t")
  case True
  obtain V E where b: "bfs t (mk_node app ns) depth = (V, E)" by (metis surj_pair)
  show ?thesis
    using get_subgraph_fields(1) [OF True b] bfs_correct(1) [OF b] True by (simp add: within_relpow)
next
  case False
  then show ?thesis by (simp add: get_subgraph_absent)
qed

text \<open>C6. The nodes of the sub-graph of a known service are exactly the services reachable from
  it by at most \<open>depth\<close> calls, together with its direct callers; an unknown service has an
  empty sub-graph.\<close>

theorem subgraph_nodes:
  "set (sg_nodes (get_subgraph t app ns depth)) =
    (if mk_node app ns \<in> node_set t
     then (\<Union>i \<in> {..unat depth}. (calls t ^^ i) `` {mk_node app ns}) \<union>
          source_node ` set (hm_vec (upstream t) (mk_node app ns))
     else {})"
  by (rule set_sg_nodes)

text \<open>C7. In a graph whose two indices mirror each other, as they do in every graph the operations build,
  every service of the sub-graph of a known root, other than the root, is of one of two kinds. If it is reached from
  the root within the depth it shows the flows of exactly one caller, all of them, and that caller
  is one call closer to the root: no sibling or back edge is visible. Otherwise it is in the
  sub-graph as a caller of the root, and shows no incoming flow.\<close>

theorem subgraph_single_caller:
  fixes depth :: u32
  assumes "mirrored t" and "mk_node app ns \<in> node_set t"
    and "c \<in> set (sg_nodes (get_subgraph t app ns depth))" and "c \<noteq> mk_node app ns"
  shows "if c \<in> within t {mk_node app ns} (unat depth)
    then \<exists>p j. j < unat depth \<and> p \<in> within t {mk_node app ns} j \<and>
      c \<in> within t {mk_node app ns} (Suc j) - within t {mk_node app ns} j \<and>
      set (hm_vec (sg_upstream (get_subgraph t app ns depth)) c) =
        {f \<in> flow_set t. source_node f = p \<and> destination_node f = c} \<and>
      set (hm_vec (sg_upstream (get_subgraph t app ns depth)) c) \<noteq> {}
    else (\<exists>f \<in> flow_set t. source_node f = c \<and> destination_node f = mk_node app ns) \<and>
      hm_vec (sg_upstream (get_subgraph t app ns depth)) c = []"
proof -
  obtain V E where b: "bfs t (mk_node app ns) depth = (V, E)" by (metis surj_pair)
  have V: "set V = within t {mk_node app ns} (unat depth)" using bfs_correct(1) [OF b] by simp
  show ?thesis
  proof (cases "c \<in> set V")
    case True
    then obtain p where p: "(p, c) \<in> set E" and uniq: "\<And>q. (q, c) \<in> set E \<longleftrightarrow> q = p"
      using bfs_correct(2) [OF b] assms(4) unfolding search_tree_def by blast
    have up: "set (hm_vec (sg_upstream (get_subgraph t app ns depth)) c) =
        {f \<in> flow_set t. source_node f = p \<and> destination_node f = c}"
      using True assms(4) unfolding get_subgraph_fields(2) [OF assms(2) b]
      by (auto simp: set_tree_flows mirrored_vec_sets [OF assms(1)] uniq)
    have "(p, c) \<in> calls t" using p bfs_correct(2) [OF b] by (auto simp: search_tree_def)
    then have "{f \<in> flow_set t. source_node f = p \<and> destination_node f = c} \<noteq> {}"
      using calls_flow_set [OF assms(1)] by auto
    moreover have "level_edge t (mk_node app ns) 0 (unat depth) (p, c)"
      using p bfs_correct(3) [OF b] by blast
    ultimately show ?thesis using up True V unfolding level_edge_def by auto
  next
    case False
    then have "c \<in> source_node ` set (hm_vec (upstream t) (mk_node app ns))"
      using assms(2,3) V by (auto simp: set_sg_nodes within_relpow)
    moreover have "hm_vec (sg_upstream (get_subgraph t app ns depth)) c = []"
      using False assms(4) unfolding get_subgraph_fields(2) [OF assms(2) b] by simp
    ultimately show ?thesis using False V by (auto simp: mirrored_vec_sets [OF assms(1)])
  qed
qed

theorem subgraph_single_caller_witness:
  "set (hm_vec (sg_upstream (get_subgraph make_graph ''svc-a'' ''ns'' 2)) (mk_node ''svc-c'' ''ns'')) \<noteq> {} \<and>
   hm_vec (sg_upstream (get_subgraph make_graph ''svc-a'' ''ns'' 2)) (mk_node ''caller'' ''ns'') = []"
proof -
  have c: "mk_node ''svc-c'' ''ns'' \<in> set (sg_nodes (get_subgraph make_graph ''svc-a'' ''ns'' 2))"
    "mk_node ''caller'' ''ns'' \<in> set (sg_nodes (get_subgraph make_graph ''svc-a'' ''ns'' 2))" by code_simp+
  have "mk_node ''caller'' ''ns'' \<notin> set (fst (bfs make_graph (mk_node ''svc-a'' ''ns'') 2))" by code_simp
  then have far: "mk_node ''caller'' ''ns'' \<notin> within make_graph {mk_node ''svc-a'' ''ns''} (unat (2 :: u32))"
    using bfs_correct(1) [of make_graph "mk_node ''svc-a'' ''ns''" 2] by (cases "bfs make_graph (mk_node ''svc-a'' ''ns'') 2") simp
  show ?thesis
    using subgraph_single_caller [OF mirrored_make_graph svc_a_known c(1)] svc_c_two_calls_away
      subgraph_single_caller [OF mirrored_make_graph svc_a_known c(2)] far
    by auto
qed

text \<open>C8. The two visible indices agree away from the root: the visible outgoing flows of a
  service are exactly its flows that are visible as incoming flows of a callee other than the
  root.\<close>

theorem subgraph_views_agree:
  fixes depth :: u32
  assumes "mirrored t" and "n \<noteq> mk_node app ns"
  defines "sg \<equiv> get_subgraph t app ns depth"
  shows "set (hm_vec (sg_downstream sg) n) =
    {f \<in> flow_set t. source_node f = n \<and> destination_node f \<noteq> mk_node app ns \<and>
       f \<in> set (hm_vec (sg_upstream sg) (destination_node f))}"
proof (cases "mk_node app ns \<in> node_set t")
  case True
  obtain V E where b: "bfs t (mk_node app ns) depth = (V, E)" by (metis surj_pair)
  have E: "set E \<subseteq> set V \<times> (set V - {mk_node app ns})"
    using bfs_correct(2) [OF b] by (simp add: search_tree_def)
  show ?thesis
    using E assms(2) unfolding sg_def get_subgraph_fields(2,3) [OF True b]
    by (auto simp: set_tree_flows mirrored_vec_sets [OF assms(1)])
next
  case False
  then show ?thesis by (simp add: sg_def get_subgraph_absent)
qed

theorem subgraph_views_agree_witness:
  "test_flow ''svc-b'' ''ns'' ''svc-c'' ''ns'' \<in>
     set (hm_vec (sg_upstream (get_subgraph make_graph ''svc-a'' ''ns'' 2)) (mk_node ''svc-c'' ''ns''))"
proof -
  have "test_flow ''svc-b'' ''ns'' ''svc-c'' ''ns'' \<in>
      set (hm_vec (sg_downstream (get_subgraph make_graph ''svc-a'' ''ns'' 2)) (mk_node ''svc-b'' ''ns''))"
    by code_simp
  then show ?thesis
    using subgraph_views_agree [OF mirrored_make_graph, of "mk_node ''svc-b'' ''ns''" "''svc-a''" "''ns''" 2]
    by (simp add: test_flow_def)
qed

text \<open>C9. With at least one hop, no visible flow dangles: every visible flow is a recorded one and
  both its endpoints are among the nodes of the sub-graph.\<close>

theorem subgraph_no_dangling:
  assumes "mirrored t" and "0 < unat depth"
    and "f \<in> set (hm_vec (sg_upstream (get_subgraph t app ns depth)) n) \<union>
             set (hm_vec (sg_downstream (get_subgraph t app ns depth)) n)"
  shows "f \<in> flow_set t \<and>
    {source_node f, destination_node f} \<subseteq> set (sg_nodes (get_subgraph t app ns depth))"
proof (cases "mk_node app ns \<in> node_set t")
  case True
  let ?root = "mk_node app ns"
  obtain V E where b: "bfs t ?root depth = (V, E)" by (metis surj_pair)
  have tree: "?root \<in> set V" "set E \<subseteq> set V \<times> (set V - {?root})"
    using bfs_correct(2) [OF b] by (simp_all add: search_tree_def)
  obtain d where d: "unat depth = Suc d" using assms(2) gr0_implies_Suc by blast
  have "calls t `` {?root} \<subseteq> set V"
    using bfs_correct(1) [OF b] within_mono [of "{?root} \<union> calls t `` {?root}" t d] by (simp add: d)
  then have out: "destination_node g \<in> set V" if "g \<in> flow_set t" "source_node g = ?root" for g
    using in_calls [OF assms(1) that(1)] that(2) by auto
  show ?thesis
    using assms(3) tree out
    unfolding get_subgraph_fields(2,3) [OF True b] get_subgraph_fields(1) [OF True b]
    by (auto simp: set_tree_flows mirrored_vec_sets [OF assms(1)] split: if_splits)
next
  case False
  then show ?thesis using assms(3) by (simp add: get_subgraph_absent)
qed

theorem subgraph_no_dangling_witness:
  "mk_node ''svc-d'' ''ns'' \<in> set (sg_nodes (get_subgraph make_graph ''svc-a'' ''ns'' 1))"
proof -
  have vis: "test_flow ''svc-a'' ''ns'' ''svc-d'' ''ns'' \<in>
      set (hm_vec (sg_upstream (get_subgraph make_graph ''svc-a'' ''ns'' 1)) (mk_node ''svc-d'' ''ns'')) \<union>
      set (hm_vec (sg_downstream (get_subgraph make_graph ''svc-a'' ''ns'' 1)) (mk_node ''svc-d'' ''ns''))"
    by code_simp
  show ?thesis
    using subgraph_no_dangling [OF mirrored_make_graph _ vis] by (simp add: test_flow_def)
qed

text \<open>A depth of at least the number of distinct caller-callee pairs is unbounded: the
  sub-graph then holds every service the root depends on, directly or not, and its callers.\<close>

theorem subgraph_unbounded:
  assumes "mirrored t" and "mk_node app ns \<in> node_set t" and "card (calls t) \<le> unat depth"
  shows "set (sg_nodes (get_subgraph t app ns depth)) =
    (calls t)\<^sup>* `` {mk_node app ns} \<union>
    {source_node f | f. f \<in> flow_set t \<and> destination_node f = mk_node app ns}"
proof -
  have "(\<Union>i \<in> {..unat depth}. (calls t ^^ i) `` {n}) = (calls t)\<^sup>* `` {n}" for n
  proof
    show "(\<Union>i \<in> {..unat depth}. (calls t ^^ i) `` {n}) \<subseteq> (calls t)\<^sup>* `` {n}"
      using relpow_imp_rtrancl by fast
    show "(calls t)\<^sup>* `` {n} \<subseteq> (\<Union>i \<in> {..unat depth}. (calls t ^^ i) `` {n})"
      using rtrancl_finite_eq_relpow [OF finite_calls [OF assms(1)]] assms(3) by fastforce
  qed
  then show ?thesis
    using set_sg_nodes [of t app ns depth] assms(2)
    by (auto simp: mirrored_vec_sets [OF assms(1)])
qed

theorem subgraph_unbounded_witness:
  "mk_node ''svc-e'' ''ns'' \<in> (calls make_graph)\<^sup>* `` {mk_node ''svc-a'' ''ns''}"
proof -
  have "card (calls make_graph) \<le> length (concat (map snd (downstream make_graph)))"
    by (rule card_calls_le [OF mirrored_make_graph])
  moreover have "length (concat (map snd (downstream make_graph))) \<le> unat (999 :: u32)"
    by code_simp
  ultimately have "card (calls make_graph) \<le> unat (999 :: u32)" by (rule le_trans)
  from subgraph_unbounded [OF mirrored_make_graph svc_a_known this]
  have nodes: "set (sg_nodes (get_subgraph make_graph ''svc-a'' ''ns'' 999)) =
    (calls make_graph)\<^sup>* `` {mk_node ''svc-a'' ''ns''} \<union>
    {source_node f | f. f \<in> flow_set make_graph \<and> destination_node f = mk_node ''svc-a'' ''ns''}" .
  show ?thesis
  proof (rule in_Un_source)
    show "mk_node ''svc-e'' ''ns'' \<in> (calls make_graph)\<^sup>* `` {mk_node ''svc-a'' ''ns''} \<union>
      {source_node f | f. f \<in> flow_set make_graph \<and> destination_node f = mk_node ''svc-a'' ''ns''}"
      unfolding nodes [symmetric] by code_simp
    show "\<forall>f \<in> flow_set make_graph. source_node f \<noteq> mk_node ''svc-e'' ''ns''"
      by code_simp
  qed
qed

end
