(* ===== verification/Rust_Strings.thy ===== *)
theory Rust_Strings
  imports Qubit_Prelude
begin

text \<open>
  What the sources use of Rust's strings and of \<open>std::net::Ipv4Addr\<close>. A Rust
  string is its UTF-8 bytes, one \<^typ>\<open>char\<close> per byte; all separators in
  the sources are ASCII, so splitting and searching bytewise is what Rust does.
\<close>

section \<open>Splitting, searching, replacing\<close>

text \<open>\<open>s.split(c)\<close>: never empty, and one part more than there are separators.\<close>

fun split_char :: "char \<Rightarrow> string \<Rightarrow> string list" where
  "split_char c [] = [[]]"
| "split_char c (x # xs) =
     (if x = c then [] # split_char c xs
      else case split_char c xs of [] \<Rightarrow> [[x]] | p # ps \<Rightarrow> (x # p) # ps)"

text \<open>\<open>s.splitn(n, c)\<close>: at most \<open>n\<close> parts, the last one the unsplit rest.\<close>

fun splitn_char :: "nat \<Rightarrow> char \<Rightarrow> string \<Rightarrow> string list" where
  "splitn_char 0 c s = []"
| "splitn_char (Suc 0) c s = [s]"
| "splitn_char (Suc (Suc n)) c s =
     (let p = takeWhile (\<lambda>x. x \<noteq> c) s; r = dropWhile (\<lambda>x. x \<noteq> c) s
      in if r = [] then [p] else p # splitn_char (Suc n) c (tl r))"

text \<open>\<open>s.split(c).next().unwrap_or(s)\<close>\<close>

definition before_char :: "char \<Rightarrow> string \<Rightarrow> string" where
  "before_char c s = (case split_char c s of [] \<Rightarrow> s | p # _ \<Rightarrow> p)"

text \<open>\<open>s.starts_with(pat)\<close> and \<open>s.contains(pat)\<close>\<close>

fun starts_with :: "string \<Rightarrow> string \<Rightarrow> bool" where
  "starts_with s [] = True"
| "starts_with [] (p # ps) = False"
| "starts_with (x # xs) (p # ps) = (x = p \<and> starts_with xs ps)"

fun str_contains :: "string \<Rightarrow> string \<Rightarrow> bool" where
  "str_contains [] pat = (pat = [])"
| "str_contains (x # xs) pat = (starts_with (x # xs) pat \<or> str_contains xs pat)"

text \<open>\<open>s.replace(c, r)\<close> with a character pattern\<close>

definition replace_char :: "char \<Rightarrow> string \<Rightarrow> string \<Rightarrow> string" where
  "replace_char c r s = concat (map (\<lambda>x. if x = c then r else [x]) s)"

text \<open>\<open>parts.join(sep)\<close>\<close>

fun str_join :: "string \<Rightarrow> string list \<Rightarrow> string" where
  "str_join sep [] = []"
| "str_join sep [p] = p"
| "str_join sep (p # q # ps) = p @ sep @ str_join sep (q # ps)"

text \<open>\<open>slice.iter().position(p)\<close>\<close>

fun position :: "('a \<Rightarrow> bool) \<Rightarrow> 'a list \<Rightarrow> nat option" where
  "position P [] = None"
| "position P (x # xs) = (if P x then Some 0 else map_option Suc (position P xs))"

section \<open>Decimal numbers\<close>

text \<open>The \<open>Display\<close> of an unsigned integer.\<close>

fun nat_str :: "nat \<Rightarrow> string" where
  "nat_str n = (if n < 10 then [char_of (48 + n)] else nat_str (n div 10) @ [char_of (48 + n mod 10)])"

declare nat_str.simps [simp del]

definition is_digit :: "char \<Rightarrow> bool" where
  "is_digit c \<longleftrightarrow> 48 \<le> (of_char c :: nat) \<and> (of_char c :: nat) \<le> 57"

definition parse_digits :: "string \<Rightarrow> nat" where
  "parse_digits s = foldl (\<lambda>n c. 10 * n + (of_char c - 48)) 0 s"

section \<open>IPv4 addresses\<close>

text \<open>The four bytes of a \<open>u32\<close>, the most significant first.\<close>

definition octets :: "u32 \<Rightarrow> nat \<times> nat \<times> nat \<times> nat" where
  "octets w = (unat w div 2 ^ 24, unat w div 2 ^ 16 mod 256, unat w div 2 ^ 8 mod 256, unat w mod 256)"

definition u32_of_octets :: "nat \<times> nat \<times> nat \<times> nat \<Rightarrow> u32" where
  "u32_of_octets = (\<lambda>(a, b, c, d). of_nat (a * 2 ^ 24 + b * 2 ^ 16 + c * 2 ^ 8 + d))"

text \<open>\<open>u32::from_be\<close> on a little-endian target swaps the bytes; the eBPF target and the hosts
  the program runs on are little-endian.\<close>

definition u32_from_be :: "u32 \<Rightarrow> u32" where
  "u32_from_be w = (case octets w of (a, b, c, d) \<Rightarrow> u32_of_octets (d, c, b, a))"

text \<open>\<open>Ipv4Addr::from(w).to_string()\<close>\<close>

definition dotted :: "nat \<times> nat \<times> nat \<times> nat \<Rightarrow> string" where
  "dotted = (\<lambda>(a, b, c, d). str_join ''.'' [nat_str a, nat_str b, nat_str c, nat_str d])"

definition ipv4_to_string :: "u32 \<Rightarrow> string" where
  "ipv4_to_string w = dotted (octets w)"

text \<open>\<open>s.parse::<Ipv4Addr>()\<close>: four decimal octets of one to three digits without a leading zero,
  separated by dots.\<close>

definition parse_octet :: "string \<Rightarrow> nat option" where
  "parse_octet s =
     (if s = [] \<or> 3 < length s \<or> \<not> list_all is_digit s then None
      else if hd s = CHR ''0'' \<and> 1 < length s then None
      else if 255 < parse_digits s then None
      else Some (parse_digits s))"

definition parse_ipv4 :: "string \<Rightarrow> u32 option" where
  "parse_ipv4 s =
     (case map parse_octet (split_char (CHR ''.'') s) of
        [Some a, Some b, Some c, Some d] \<Rightarrow> Some (u32_of_octets (a, b, c, d))
      | _ \<Rightarrow> None)"

section \<open>Facts about splitting\<close>

lemma position_append: "\<forall>x \<in> set xs. \<not> P x \<Longrightarrow> P y \<Longrightarrow> position P (xs @ y # ys) = Some (length xs)"
  by (induction xs) auto

lemma position_none: "\<forall>x \<in> set xs. \<not> P x \<Longrightarrow> position P xs = None"
  by (induction xs) auto

lemma split_char_not_Nil [simp]: "split_char c s \<noteq> []"
  by (induction s) (auto split: list.split)

lemma split_char_no_sep [simp]: "c \<notin> set s \<Longrightarrow> split_char c s = [s]"
  by (induction s) auto

lemma split_char_append: "c \<notin> set p \<Longrightarrow> split_char c (p @ c # s) = p # split_char c s"
  by (induction p) (auto split: list.split)

lemma split_char_parts: "p \<in> set (split_char c s) \<Longrightarrow> c \<notin> set p"
  by (induction s arbitrary: p) (auto split: if_splits list.splits)

lemma split_char_join:
  "ps \<noteq> [] \<Longrightarrow> \<forall>p \<in> set ps. c \<notin> set p \<Longrightarrow> split_char c (str_join [c] ps) = ps"
  by (induction "[c]" ps rule: str_join.induct) (auto simp: split_char_append)

lemma str_join_split: "str_join [c] (split_char c s) = s"
proof (induction s)
  case Nil
  then show ?case by simp
next
  case (Cons x xs)
  obtain p ps where ps: "split_char c xs = p # ps" by (meson neq_Nil_conv split_char_not_Nil)
  with Cons show ?case by (cases ps) auto
qed

lemma takeWhile_sep: "c \<notin> set a \<Longrightarrow> takeWhile (\<lambda>x. x \<noteq> c) (a @ c # r) = a"
  by (induction a) auto

lemma dropWhile_sep: "c \<notin> set a \<Longrightarrow> dropWhile (\<lambda>x. x \<noteq> c) (a @ c # r) = c # r"
  by (induction a) auto

lemma before_char_takeWhile: "before_char c s = takeWhile (\<lambda>x. x \<noteq> c) s"
proof -
  have "\<exists>ps. split_char c s = takeWhile (\<lambda>x. x \<noteq> c) s # ps"
    by (induction s) (auto split: list.split)
  then show ?thesis by (auto simp: before_char_def)
qed

lemma before_char_no_sep: "c \<notin> set (before_char c s)"
  by (auto simp: before_char_takeWhile dest: set_takeWhileD)

lemma before_char_id [simp]: "c \<notin> set s \<Longrightarrow> before_char c s = s"
  by (simp add: before_char_def)

lemma starts_with_iff: "starts_with s pat \<longleftrightarrow> (\<exists>r. s = pat @ r)"
  by (induction s pat rule: starts_with.induct) auto

lemma str_contains_iff: "str_contains s pat \<longleftrightarrow> (\<exists>a b. s = a @ pat @ b)"
proof (induction s)
  case Nil
  then show ?case by auto
next
  case (Cons x xs)
  show ?case
  proof
    assume "str_contains (x # xs) pat"
    then consider "starts_with (x # xs) pat" | "str_contains xs pat" by auto
    then show "\<exists>a b. x # xs = a @ pat @ b"
      by cases (metis append_Nil starts_with_iff, metis Cons append_Cons)
  next
    assume "\<exists>a b. x # xs = a @ pat @ b"
    then obtain a b where "x # xs = a @ pat @ b" by blast
    then have "starts_with (x # xs) pat \<or> (\<exists>a b. xs = a @ pat @ b)"
      unfolding starts_with_iff by (cases a) auto
    then show "str_contains (x # xs) pat" using Cons by auto
  qed
qed

lemma replace_char_absent: "c \<notin> set r \<Longrightarrow> c \<notin> set (replace_char c r s)"
  by (auto simp: replace_char_def)

lemma replace_char_id: "c \<notin> set s \<Longrightarrow> replace_char c r s = s"
  by (induction s) (auto simp: replace_char_def)

section \<open>Facts about addresses\<close>

lemma of_char_digit [simp]: "k < 10 \<Longrightarrow> (of_char (char_of (48 + k) :: char) :: nat) = 48 + k"
  by simp

lemma parse_digits_snoc: "parse_digits (s @ [c]) = 10 * parse_digits s + (of_char c - 48)"
  by (simp add: parse_digits_def)

lemma parse_nat_str: "parse_digits (nat_str n) = n"
proof (induction n rule: nat_str.induct)
  case (1 n)
  show ?case
  proof (cases "n < 10")
    case True
    then show ?thesis by (simp add: nat_str.simps [of n] parse_digits_def)
  next
    case False
    with 1 show ?thesis by (simp add: nat_str.simps [of n] parse_digits_snoc)
  qed
qed

lemma nat_str_inj: "nat_str m = nat_str n \<Longrightarrow> m = n"
  by (metis parse_nat_str)

lemma digits_nat_str: "list_all is_digit (nat_str n)"
proof (induction n rule: nat_str.induct)
  case (1 n)
  then show ?case by (cases "n < 10") (simp_all add: nat_str.simps [of n] is_digit_def)
qed

lemma nat_str_not_Nil [simp]: "nat_str n \<noteq> []"
  by (subst nat_str.simps) simp

lemma nat_str_no_leading_zero: "0 < n \<Longrightarrow> hd (nat_str n) \<noteq> CHR ''0''"
proof (induction n rule: nat_str.induct)
  case (1 n)
  show ?case
  proof (cases "n < 10")
    case True
    have "(of_char (hd (nat_str n)) :: nat) = 48 + n" using True by (simp add: nat_str.simps [of n])
    then show ?thesis using "1.prems" by auto
  next
    case False
    with 1 show ?thesis by (simp add: nat_str.simps [of n])
  qed
qed

lemma length_nat_str: "n < 1000 \<Longrightarrow> length (nat_str n) = (if n < 10 then 1 else if n < 100 then 2 else 3)"
  by (simp add: nat_str.simps [of n] nat_str.simps [of "n div 10"] nat_str.simps [of "n div 10 div 10"]) arith

lemma octet_string:
  assumes "n < 256"
  shows "parse_octet (nat_str n) = Some n" "CHR ''.'' \<notin> set (nat_str n)" "CHR '':'' \<notin> set (nat_str n)"
proof -
  show "parse_octet (nat_str n) = Some n"
    using assms digits_nat_str [of n] nat_str_no_leading_zero [of n]
    by (auto simp: parse_octet_def parse_nat_str length_nat_str)
  show "CHR ''.'' \<notin> set (nat_str n)" "CHR '':'' \<notin> set (nat_str n)"
    using digits_nat_str [of n] by (auto simp: list_all_iff is_digit_def)
qed

lemma octets_bound: "octets w = (a, b, c, d) \<Longrightarrow> a < 256 \<and> b < 256 \<and> c < 256 \<and> d < 256"
  using unsigned_less [of w, where 'a = nat] by (auto simp: octets_def less_mult_imp_div_less)

lemma unat_of_nat_u32: "n < 2 ^ 32 \<Longrightarrow> unat (of_nat n :: u32) = n"
  by (simp add: unsigned_of_nat take_bit_nat_eq_self)

lemma div_65536: "(x :: nat) div 65536 = x div 256 div 256"
  by (simp add: div_mult2_eq [of x 256 256, simplified])

lemma div_16777216: "(x :: nat) div 16777216 = x div 256 div 256 div 256"
  by (simp add: div_mult2_eq [of x 65536 256, simplified] div_65536)

lemma octets_div:
  "octets w = (unat w div 256 div 256 div 256, unat w div 256 div 256 mod 256,
     unat w div 256 mod 256, unat w mod 256)"
  by (simp add: octets_def div_65536 div_16777216)

lemma octets_u32_of_octets:
  assumes "a < 256" and "b < 256" and "c < 256" and "d < 256"
  shows "octets (u32_of_octets (a, b, c, d)) = (a, b, c, d)"
proof -
  let ?n = "a * 2 ^ 24 + b * 2 ^ 16 + c * 2 ^ 8 + d"
  have "?n < 2 ^ 32" using assms by simp
  then have "unat (u32_of_octets (a, b, c, d)) = ?n"
    by (simp only: u32_of_octets_def case_prod_conv unat_of_nat_u32)
  moreover have "?n = ((a * 256 + b) * 256 + c) * 256 + d" by simp
  ultimately have n: "unat (u32_of_octets (a, b, c, d)) = ((a * 256 + b) * 256 + c) * 256 + d"
    by (rule trans)
  have "y < 256 \<Longrightarrow> (x * 256 + y) div 256 = x" "y < 256 \<Longrightarrow> (x * 256 + y) mod 256 = y" for x y :: nat
    by simp_all
  then show ?thesis by (simp only: octets_div n assms)
qed

lemma u32_of_octets_octets: "u32_of_octets (octets w) = w"
proof -
  have split: "x = x div 256 * 256 + x mod 256" for x :: nat by simp
  have "x div 16777216 * 16777216 + x div 65536 mod 256 * 65536 + x div 256 mod 256 * 256 + x mod 256 = x"
    for x :: nat
    unfolding div_65536 div_16777216
    using split [of x] split [of "x div 256"] split [of "x div 256 div 256"] by linarith
  from this [of "unat w"] show ?thesis
    by (simp only: u32_of_octets_def octets_def case_prod_conv) simp
qed

lemma split_dotted:
  assumes "a < 256" and "b < 256" and "c < 256" and "d < 256"
  shows "split_char (CHR ''.'') (dotted (a, b, c, d)) = [nat_str a, nat_str b, nat_str c, nat_str d]"
  unfolding dotted_def using assms by (simp only: case_prod_conv) (rule split_char_join, auto simp: octet_string)

lemma parse_dotted:
  assumes "a < 256" and "b < 256" and "c < 256" and "d < 256"
  shows "parse_ipv4 (dotted (a, b, c, d)) = Some (u32_of_octets (a, b, c, d))"
  using assms by (simp add: parse_ipv4_def split_dotted octet_string)

lemma parse_ipv4_to_string: "parse_ipv4 (ipv4_to_string w) = Some w"
proof -
  obtain a b c d where o: "octets w = (a, b, c, d)" by (metis prod_cases4)
  show ?thesis
    using parse_dotted [of a b c d] octets_bound [OF o] u32_of_octets_octets [of w]
    by (simp add: ipv4_to_string_def o)
qed

lemma ipv4_to_string_inj: "ipv4_to_string v = ipv4_to_string w \<Longrightarrow> v = w"
  by (metis parse_ipv4_to_string option.inject)

lemma u32_from_be_octets: "octets (u32_from_be w) = (case octets w of (a, b, c, d) \<Rightarrow> (d, c, b, a))"
proof -
  obtain a b c d where o: "octets w = (a, b, c, d)" by (metis prod_cases4)
  then show ?thesis
    using octets_bound [OF o] by (simp add: u32_from_be_def octets_u32_of_octets)
qed

end
