(* ===== verification/Moka_Cache.thy ===== *)
theory Moka_Cache
  imports Qubit_Prelude
begin

text \<open>
  The concurrent caches of the \<open>moka\<close> package that Core keeps (pods, services,
  Envoy domains). The package is not part of the repository: its operations are
  a parameter, a record of functions, and \<open>cache_laws\<close> states what
  its documentation promises of a cache built without capacity and expiry: a
  lookup returns the last value inserted under the key and not removed since.
\<close>

record ('v, 'c) cache =
  cache_new :: 'c
  cache_get :: "'c \<Rightarrow> string \<Rightarrow> 'v option"
  cache_insert :: "'c \<Rightarrow> string \<Rightarrow> 'v \<Rightarrow> 'c"
  cache_remove :: "'c \<Rightarrow> string \<Rightarrow> 'c"

definition cache_laws :: "('v, 'c) cache \<Rightarrow> bool" where
  "cache_laws C \<longleftrightarrow>
     (\<forall>k. cache_get C (cache_new C) k = None) \<and>
     (\<forall>c k v k'. cache_get C (cache_insert C c k v) k' = (if k' = k then Some v else cache_get C c k')) \<and>
     (\<forall>c k k'. cache_get C (cache_remove C c k) k' = (if k' = k then None else cache_get C c k'))"

text \<open>A cache made of a hash map keeps the laws.\<close>

definition hash_cache :: "('v, (string, 'v) hash_map) cache" where
  "hash_cache = \<lparr>cache_new = [], cache_get = map_of,
     cache_insert = (\<lambda>m k v. hm_insert k v m), cache_remove = (\<lambda>m k. hm_remove k m)\<rparr>"

locale moka_cache =
  fixes C :: "('v, 'c) cache"
  assumes laws: "cache_laws C"
begin

lemma get_new: "cache_get C (cache_new C) k = None"
  using laws by (simp add: cache_laws_def)

lemma get_insert: "cache_get C (cache_insert C c k v) k' = (if k' = k then Some v else cache_get C c k')"
  using laws by (simp add: cache_laws_def)

lemma get_remove: "cache_get C (cache_remove C c k) k' = (if k' = k then None else cache_get C c k')"
  using laws by (simp add: cache_laws_def)

end

sublocale moka_cache \<subseteq> kv_store "cache_get C" "\<lambda>k v c. cache_insert C c k v" "\<lambda>_. True"
  by unfold_locales (simp_all add: get_insert)

context moka_cache
begin

text \<open>A sequence of insertions: the last value of a key, or what the cache held before.\<close>

lemma get_insert_all:
  "cache_get C (fold (\<lambda>(k, v) c. cache_insert C c k v) kvs c) k =
     (case map_of (rev kvs) k of None \<Rightarrow> cache_get C c k | Some v \<Rightarrow> Some v)"
  using lookup_put_all [where m = c and kvs = kvs and k = k] by simp

end

lemma hash_cache_sel [simp]:
  "cache_new hash_cache = []" "cache_get hash_cache = map_of"
  "cache_insert hash_cache m k v = hm_insert k v m" "cache_remove hash_cache m k = hm_remove k m"
  by (simp_all add: hash_cache_def)

lemma hash_cache_laws: "cache_laws hash_cache"
  by (simp add: cache_laws_def hm_get_insert hm_get_remove)

interpretation hc: moka_cache hash_cache
  by unfold_locales (rule hash_cache_laws)

lemmas cache_get_new = moka_cache.get_new [OF moka_cache.intro]
lemmas cache_get_insert = moka_cache.get_insert [OF moka_cache.intro]
lemmas cache_get_remove = moka_cache.get_remove [OF moka_cache.intro]
lemmas cache_get_insert_all = moka_cache.get_insert_all [OF moka_cache.intro]

end
