(* ===== verification/Core_Model.thy ===== *)
theory Core_Model
  imports Topology Rust_Strings Moka_Cache
begin

text \<open>
  The data of Core: the event types of \<^verbatim>\<open>core/src/model\<close>, the cached metadata of
  \<^verbatim>\<open>core/src/aggregator/k8s_aggregator.rs\<close>, the Envoy domain cache of
  \<^verbatim>\<open>core/src/envoy/envoy.rs\<close>, and the state the two aggregators share.
\<close>

section \<open>Events and errors\<close>

record ebpf_network_event_input =
  in_timestamp_ns :: u64
  src_ip :: u32
  dst_ip :: u32
  in_src_port :: u16
  in_dst_port :: u16
  in_method :: string
  in_path :: string
  in_host :: string

definition src_ip_str :: "ebpf_network_event_input \<Rightarrow> string" where
  "src_ip_str i = ipv4_to_string (u32_from_be (src_ip i))"

definition dst_ip_str :: "ebpf_network_event_input \<Rightarrow> string" where
  "dst_ip_str i = ipv4_to_string (u32_from_be (dst_ip i))"

record ebpf_network_event =
  timestamp_ns :: u64
  src_service :: string
  src_namespace :: string
  src_application :: string
  dst_service :: string
  dst_namespace :: string
  dst_application :: string
  ev_src_port :: u16
  ev_dst_port :: u16
  ev_method :: string
  ev_path :: string
  ev_host :: string

record k8s_resource_event =
  event_time :: u32
  kr_resource_type :: string
  kr_name :: string
  kr_namespace :: string
  kr_event_type :: string
  kr_labels :: string
  kr_resource_data :: string

datatype core_error =
    SchemaInitializationFailed string
  | EventAdditionFailed string
  | EventFetchingFailed string
  | EbpfEventRecordingFailed string
  | EnvoyRequestFailed string

section \<open>Cached metadata\<close>

record pod_info =
  pod_namespace :: string
  pod_application_name :: string
  pod_service_name :: string
  pod_service_type :: string

record service_info =
  svc_namespace :: string
  svc_service_type :: string
  svc_cluster_ip :: string

text \<open>The Envoy domain cache: domain to (service, namespace).\<close>

type_synonym 'e envoy_cache_ops = "(string \<times> string, 'e) cache"

definition envoy_new :: "'e envoy_cache_ops \<Rightarrow> 'e" where
  "envoy_new EC = cache_new EC"

definition envoy_get :: "'e envoy_cache_ops \<Rightarrow> 'e \<Rightarrow> string \<Rightarrow> (string \<times> string) option" where
  "envoy_get EC c domain = cache_get EC c domain"

definition envoy_insert :: "'e envoy_cache_ops \<Rightarrow> string \<Rightarrow> string \<Rightarrow> string \<Rightarrow> 'e \<Rightarrow> 'e" where
  "envoy_insert EC domain service_name ns c = cache_insert EC c domain (service_name, ns)"

section \<open>The shared state\<close>

text \<open>Work handed to \<open>tokio::spawn\<close> that has not run yet.\<close>

datatype task =
    RecordEbpf ebpf_network_event_input
  | PersistK8s k8s_resource_event

record ('p, 's, 'e) core_state =
  pod_cache :: 'p
  service_cache :: 's
  envoy_cache :: 'e
  seen_edges :: "string hash_set rwlock"
  topo :: "topology rwlock"
  spawned :: "task list"

text \<open>The operations of the three caches, the parameter of the Core definitions.\<close>

record ('p, 's, 'e) core_caches =
  pods_ops :: "(pod_info, 'p) cache"
  services_ops :: "(service_info, 's) cache"
  envoy_ops :: "'e envoy_cache_ops"

definition caches_ok :: "('p, 's, 'e) core_caches \<Rightarrow> bool" where
  "caches_ok K \<longleftrightarrow> cache_laws (pods_ops K) \<and> cache_laws (services_ops K) \<and> cache_laws (envoy_ops K)"

definition hash_caches ::
  "((string, pod_info) hash_map, (string, service_info) hash_map, (string, string \<times> string) hash_map) core_caches" where
  "hash_caches = \<lparr>pods_ops = hash_cache, services_ops = hash_cache, envoy_ops = hash_cache\<rparr>"

text \<open>What \<open>run\<close>, \<open>GrpcServer::new\<close> and the constructors of the aggregators set up.\<close>

definition init_core :: "('p, 's, 'e) core_caches \<Rightarrow> ('p, 's, 'e) core_state" where
  "init_core K =
     \<lparr>pod_cache = cache_new (pods_ops K), service_cache = cache_new (services_ops K),
      envoy_cache = envoy_new (envoy_ops K), seen_edges = new_lock [],
      topo = new_lock new_topology, spawned = []\<rparr>"

text \<open>\<open>format!("{}/{}", namespace, name)\<close>\<close>

definition slash_key :: "string \<Rightarrow> string \<Rightarrow> string" where
  "slash_key ns name = ns @ ''/'' @ name"

section \<open>Facts\<close>

lemma caches_okD:
  assumes "caches_ok K"
  shows "cache_laws (pods_ops K)" "cache_laws (services_ops K)" "cache_laws (envoy_ops K)"
  using assms by (simp_all add: caches_ok_def)

lemma hash_caches_ok [simp]: "caches_ok hash_caches"
  by (simp add: caches_ok_def hash_caches_def hash_cache_laws)

lemma hash_caches_sel [simp]:
  "pods_ops hash_caches = hash_cache" "services_ops hash_caches = hash_cache" "envoy_ops hash_caches = hash_cache"
  by (simp_all add: hash_caches_def)

text \<open>The first slash separates the two parts as long as the namespace has none.\<close>

lemma slash_key_inj:
  assumes "CHR ''/'' \<notin> set ns" and "CHR ''/'' \<notin> set ns'" and "slash_key ns name = slash_key ns' name'"
  shows "ns = ns' \<and> name = name'"
proof -
  have "split_char (CHR ''/'') (slash_key n m) = n # split_char (CHR ''/'') m" if "CHR ''/'' \<notin> set n" for n m
    using split_char_append [OF that] by (simp add: slash_key_def)
  then have "ns = ns'" using assms by (metis list.inject)
  then show ?thesis using assms(3) by (simp add: slash_key_def)
qed

end
