(* ===== verification/K8s_Aggregator.thy ===== *)
theory K8s_Aggregator
  imports Core_Model
begin

text \<open>
  The Kubernetes side of Core, \<^verbatim>\<open>core/src/aggregator/k8s_aggregator.rs\<close>: the pod
  and service caches, the healing of stale nodes when a pod becomes known, and
  resource events. The clock and the JSON printer of the labels are arguments.
\<close>

section \<open>Operations\<close>

definition record_pod_applied :: "('p, 's, 'e) core_caches \<Rightarrow> string \<Rightarrow> string \<Rightarrow> string \<Rightarrow> string \<Rightarrow> string
    \<Rightarrow> ('p, 's, 'e) core_state \<Rightarrow> ('p, 's, 'e) core_state" where
  "record_pod_applied K pod_ip ns app svc svc_type s =
     (let s1 = s\<lparr>pod_cache := cache_insert (pods_ops K) (pod_cache s) pod_ip
                 \<lparr>pod_namespace = ns, pod_application_name = app,
                  pod_service_name = svc, pod_service_type = svc_type\<rparr>\<rparr>
      in if app \<noteq> [] then
           (if poisoned (topo s1) then s1
            else s1\<lparr>topo := lock_set (resolve_unknown_node pod_ip app ns (inner (topo s1))) (topo s1)\<rparr>)
         else s1)"

definition record_pod_deleted :: "('p, 's, 'e) core_caches \<Rightarrow> string \<Rightarrow> ('p, 's, 'e) core_state \<Rightarrow> ('p, 's, 'e) core_state" where
  "record_pod_deleted K pod_ip s = s\<lparr>pod_cache := cache_remove (pods_ops K) (pod_cache s) pod_ip\<rparr>"

definition record_service_applied :: "('p, 's, 'e) core_caches \<Rightarrow> string \<Rightarrow> string \<Rightarrow> string \<Rightarrow> string
    \<Rightarrow> ('p, 's, 'e) core_state \<Rightarrow> ('p, 's, 'e) core_state" where
  "record_service_applied K name ns svc_type cluster_ip s =
     s\<lparr>service_cache := cache_insert (services_ops K) (service_cache s) (slash_key ns name)
         \<lparr>svc_namespace = ns, svc_service_type = svc_type, svc_cluster_ip = cluster_ip\<rparr>\<rparr>"

definition record_service_deleted :: "('p, 's, 'e) core_caches \<Rightarrow> string \<Rightarrow> string
    \<Rightarrow> ('p, 's, 'e) core_state \<Rightarrow> ('p, 's, 'e) core_state" where
  "record_service_deleted K name ns s =
     s\<lparr>service_cache := cache_remove (services_ops K) (service_cache s) (slash_key ns name)\<rparr>"

text \<open>\<open>now\<close> is the clock in seconds since the epoch; the table keeps its low 32 bits.\<close>

definition record_k8s_resource_event :: "((string, string) hash_map \<Rightarrow> string) \<Rightarrow> u64 \<Rightarrow> string \<Rightarrow> string \<Rightarrow> string
    \<Rightarrow> string \<Rightarrow> (string, string) hash_map \<Rightarrow> string
    \<Rightarrow> ('p, 's, 'e) core_state \<Rightarrow> ('p, 's, 'e) core_state" where
  "record_k8s_resource_event to_json now rtype name ns etype labels rdata s =
     (let db_event = \<lparr>event_time = ucast now, kr_resource_type = rtype, kr_name = name,
                      kr_namespace = ns, kr_event_type = etype, kr_labels = to_json labels,
                      kr_resource_data = rdata\<rparr>;
          s1 = s\<lparr>spawned := spawned s @ [PersistK8s db_event]\<rparr>;
          topo_event = \<lparr>timestamp = now, resource_name = name, resource_type = rtype,
                        event_type = etype, event_data = rdata\<rparr>
      in if poisoned (topo s1) then s1
         else s1\<lparr>topo := lock_set (add_k8s_event (mk_node name ns) topo_event (inner (topo s1))) (topo s1)\<rparr>)"

section \<open>Facts\<close>

lemma record_pod_applied_sel [simp]:
  "service_cache (record_pod_applied K a ns app svc ty s) = service_cache s"
  "envoy_cache (record_pod_applied K a ns app svc ty s) = envoy_cache s"
  "seen_edges (record_pod_applied K a ns app svc ty s) = seen_edges s"
  "spawned (record_pod_applied K a ns app svc ty s) = spawned s"
  "poisoned (topo (record_pod_applied K a ns app svc ty s)) = poisoned (topo s)"
  by (simp_all add: record_pod_applied_def Let_def)

lemma topo_record_pod_applied:
  "inner (topo (record_pod_applied K a ns app svc ty s)) =
     (if app = [] \<or> poisoned (topo s) then inner (topo s)
      else resolve_unknown_node a app ns (inner (topo s)))"
  by (simp add: record_pod_applied_def Let_def)

lemma get_record_pod_applied:
  assumes "cache_laws (pods_ops K)"
  shows "cache_get (pods_ops K) (pod_cache (record_pod_applied K a ns app svc ty s)) a' =
    (if a' = a then Some \<lparr>pod_namespace = ns, pod_application_name = app,
                          pod_service_name = svc, pod_service_type = ty\<rparr>
     else cache_get (pods_ops K) (pod_cache s) a')"
  using cache_get_insert [OF assms] by (simp add: record_pod_applied_def Let_def)

lemma record_k8s_resource_event_sel [simp]:
  "pod_cache (record_k8s_resource_event tj now rt n ns et ls rd s) = pod_cache s"
  "service_cache (record_k8s_resource_event tj now rt n ns et ls rd s) = service_cache s"
  "envoy_cache (record_k8s_resource_event tj now rt n ns et ls rd s) = envoy_cache s"
  "seen_edges (record_k8s_resource_event tj now rt n ns et ls rd s) = seen_edges s"
  "poisoned (topo (record_k8s_resource_event tj now rt n ns et ls rd s)) = poisoned (topo s)"
  by (simp_all add: record_k8s_resource_event_def Let_def)

lemma topo_record_k8s_resource_event:
  "inner (topo (record_k8s_resource_event tj now rt n ns et ls rd s)) =
     (if poisoned (topo s) then inner (topo s)
      else add_k8s_event (mk_node n ns)
        \<lparr>timestamp = now, resource_name = n, resource_type = rt, event_type = et, event_data = rd\<rparr>
        (inner (topo s)))"
  by (simp add: record_k8s_resource_event_def Let_def)

lemma topo_inv_record_pod_applied [topo_pres]:
  "topo_inv (inner (topo s)) \<Longrightarrow> topo_inv (inner (topo (record_pod_applied K a ns app svc ty s)))"
  by (simp add: topo_record_pod_applied topo.inv_heal)

lemma topo_inv_record_k8s_resource_event [topo_pres]:
  "topo_inv (inner (topo s)) \<Longrightarrow> topo_inv (inner (topo (record_k8s_resource_event tj now rt n ns et ls rd s)))"
  by (simp add: topo_record_k8s_resource_event topo.inv_put_event)

section \<open>Properties\<close>

text \<open>C11. A pod notification with an application name makes later lookups of its address return
  that pod, changes no other address, and heals the topology at once: the raw-address node of
  the pod is gone and the graph is well formed.\<close>

theorem pod_applied_heals:
  fixes svc ty :: string
  assumes "cache_laws (pods_ops K)" and "topo_inv (inner (topo s))" and "\<not> poisoned (topo s)"
    and "app \<noteq> []" and "mk_node app ns \<noteq> stale_id_of a"
  defines "s' \<equiv> record_pod_applied K a ns app svc ty s"
  shows "cache_get (pods_ops K) (pod_cache s') a =
           Some \<lparr>pod_namespace = ns, pod_application_name = app,
                 pod_service_name = svc, pod_service_type = ty\<rparr> \<and>
    (\<forall>b. b \<noteq> a \<longrightarrow> cache_get (pods_ops K) (pod_cache s') b = cache_get (pods_ops K) (pod_cache s) b) \<and>
    topo_inv (inner (topo s')) \<and> stale_id_of a \<notin> node_set (inner (topo s'))"
  using assms topo.heal_removes_node [OF assms(5), of "inner (topo s)"]
  by (simp add: get_record_pod_applied topo_record_pod_applied topo.inv_heal)

theorem pod_applied_heals_witness:
  "stale_id_of ''10.0.0.2'' \<notin> node_set (inner (topo (record_pod_applied hash_caches ''10.0.0.2'' ''default'' ''svc-b''
     ''svc-b'' ''ClusterIP'' ((init_core hash_caches)\<lparr>topo := new_lock half_resolved\<rparr>))))"
  using pod_applied_heals [of hash_caches "(init_core hash_caches)\<lparr>topo := new_lock half_resolved\<rparr>"
      "''svc-b''" "''default''" "''10.0.0.2''" "''svc-b''" "''ClusterIP''"]
  by (simp add: hash_cache_laws half_resolved_inv stale_id_of_def)

text \<open>C12. A resource event queues exactly one database row, with the clock cut to 32 bits, and is
  appended to the event list of the node with its name and namespace if there is one; no other
  node, no flow and no cache changes.\<close>

theorem resource_event_attached:
  fixes now :: u64 and rt n ns et rd :: string and ls :: "(string, string) hash_map"
    and tj :: "(string, string) hash_map \<Rightarrow> string" and m :: node_id
  assumes "\<not> poisoned (topo s)"
  defines "s' \<equiv> record_k8s_resource_event tj now rt n ns et ls rd s"
  defines "ev \<equiv> \<lparr>timestamp = now, resource_name = n, resource_type = rt, event_type = et, event_data = rd\<rparr>"
  shows "spawned s' = spawned s @ [PersistK8s \<lparr>event_time = ucast now, kr_resource_type = rt, kr_name = n,
      kr_namespace = ns, kr_event_type = et, kr_labels = tj ls, kr_resource_data = rd\<rparr>] \<and>
    hm_get (nodes (inner (topo s'))) m =
      (if m = mk_node n ns then map_option (\<lambda>d. d\<lparr>k8s_events := k8s_events d @ [ev]\<rparr>) (hm_get (nodes (inner (topo s))) m)
       else hm_get (nodes (inner (topo s))) m) \<and>
    flow_set (inner (topo s')) = flow_set (inner (topo s)) \<and> pod_cache s' = pod_cache s"
proof -
  have "hm_get (nodes (add_k8s_event (mk_node n ns) ev t)) m =
      (if m = mk_node n ns then map_option (\<lambda>d. d\<lparr>k8s_events := k8s_events d @ [ev]\<rparr>) (hm_get (nodes t) m)
       else hm_get (nodes t) m)" for t
    by (auto simp: add_k8s_event_def hm_get_insert split: option.split)
  then show ?thesis
    using assms(1) by (simp add: s'_def topo_record_k8s_resource_event ev_def flow_set_def)
      (simp add: record_k8s_resource_event_def Let_def)
qed

theorem resource_event_attached_witness:
  "hm_get (nodes (inner (topo (record_k8s_resource_event (\<lambda>_. ''{}'') 7 ''Deployment'' ''svc-a'' ''default''
       ''Applied'' [] [] ((init_core hash_caches)\<lparr>topo := new_lock half_resolved\<rparr>)))))
     (mk_node ''svc-a'' ''default'') =
   Some \<lparr>ip = ''10.0.0.1'', k8s_events = [\<lparr>timestamp = 7, resource_name = ''svc-a'',
     resource_type = ''Deployment'', event_type = ''Applied'', event_data = []\<rparr>]\<rparr>"
proof -
  have "hm_get (nodes half_resolved) (mk_node ''svc-a'' ''default'') = Some \<lparr>ip = ''10.0.0.1'', k8s_events = []\<rparr>"
    by code_simp
  then show ?thesis
    using resource_event_attached [of "(init_core hash_caches)\<lparr>topo := new_lock half_resolved\<rparr>"
        "\<lambda>_. ''{}''" 7 "''Deployment''" "''svc-a''" "''default''" "''Applied''" "[]" "[]" "mk_node ''svc-a'' ''default''"]
    by simp
qed

end
