(* ===== verification/Ebpf_Aggregator.thy ===== *)
theory Ebpf_Aggregator
  imports Core_Model
begin

text \<open>
  The traffic side of Core, \<^verbatim>\<open>core/src/aggregator/ebpf_aggregator.rs\<close>: how a captured
  request is attributed to a source and a destination service, how repeated
  service pairs are dropped, and what is recorded in the topology.
\<close>

section \<open>Operations\<close>

definition parse_k8s_host :: "string \<Rightarrow> string \<times> string" where
  "parse_k8s_host host0 =
     (let host = before_char (CHR '':'') host0 in
      if parse_ipv4 host \<noteq> None then (host, ''unknown'')
      else if \<not> str_contains host ''.'' then (host, ''unknown'')
      else if str_contains host ''.svc'' then
        (case splitn_char 3 (CHR ''.'') host of
           svc # ns # _ \<Rightarrow> (svc, ns)
         | _ \<Rightarrow> (host, ''external''))
      else (host, ''external''))"

text \<open>The source: the pod with the packet's source address, if it has an application name.\<close>

definition source_of :: "(pod_info, 'p) cache \<Rightarrow> 'p \<Rightarrow> string \<Rightarrow> pod_info option" where
  "source_of PC pods a =
     (case cache_get PC pods a of
        None \<Rightarrow> None
      | Some p \<Rightarrow> if pod_application_name p \<noteq> [] then Some p else None)"

text \<open>The destination: Envoy's domain table, else the pod cache, else the host name itself.\<close>

definition destination_of :: "('p, 's, 'e) core_caches \<Rightarrow> 'e \<Rightarrow> 'p \<Rightarrow> string \<Rightarrow> string \<Rightarrow> string \<times> string" where
  "destination_of K envoys pods host a =
     (case envoy_get (envoy_ops K) envoys host of
        Some (app, ns) \<Rightarrow> (app, ns)
      | None \<Rightarrow>
          (case cache_get (pods_ops K) pods a of
             Some info \<Rightarrow> if pod_application_name info \<noteq> []
                           then (pod_application_name info, pod_namespace info)
                           else parse_k8s_host host
           | None \<Rightarrow> parse_k8s_host host))"

definition dst_service_of :: "(pod_info, 'p) cache \<Rightarrow> 'p \<Rightarrow> string \<Rightarrow> string \<Rightarrow> string" where
  "dst_service_of PC pods a dst_app =
     (case cache_get PC pods a of
        None \<Rightarrow> dst_app
      | Some p \<Rightarrow> if pod_service_name p \<noteq> [] then pod_service_name p else dst_app)"

definition edge_key :: "string \<Rightarrow> string \<Rightarrow> string \<Rightarrow> string \<Rightarrow> string" where
  "edge_key src_ns src_svc dst_ns dst_svc =
     src_ns @ ''/'' @ src_svc @ '' -> '' @ dst_ns @ ''/'' @ dst_svc"

text \<open>The section under the topology's write lock.\<close>

definition record_call :: "ebpf_network_event_input \<Rightarrow> node_id \<Rightarrow> node_id \<Rightarrow> topology \<Rightarrow> topology" where
  "record_call i src dst t =
     (let t1 = add_node src (node_data_of_ip (src_ip_str i)) t;
          t2 = add_node dst (node_data_of_ip (dst_ip_str i)) t1;
          f = \<lparr>source_node = src, destination_node = dst, flow_path = in_path i, flow_method = in_method i\<rparr>
      in add_flow f t2)"

definition record_ebpf_event :: "('p, 's, 'e) core_caches \<Rightarrow> ebpf_network_event_input
    \<Rightarrow> ('p, 's, 'e) core_state \<Rightarrow> (string, core_error) rust_result \<times> ('p, 's, 'e) core_state" where
  "record_ebpf_event K i s =
     (if str_contains (in_path i) ''/health'' then (Inr ''Skipping health check event!'', s)
      else
        let src_addr = src_ip_str i; dst_addr = dst_ip_str i in
        (case source_of (pods_ops K) (pod_cache s) src_addr of
           None \<Rightarrow> (Inr (''unresolved source '' @ [CHR 0xE2, CHR 0x80, CHR 0x94] @ '' waiting for pod event''), s)
         | Some p \<Rightarrow>
             let host = before_char (CHR '':'') (in_host i);
                 (dst_app, dst_ns) = destination_of K (envoy_cache s) (pod_cache s) host dst_addr;
                 dst_svc = dst_service_of (pods_ops K) (pod_cache s) dst_addr dst_app;
                 key = edge_key (pod_namespace p) (pod_service_name p) dst_ns dst_svc
             in
             if poisoned (seen_edges s)
             then (Inl (EbpfEventRecordingFailed ''seen_edges lock poisoned''), s)
             else
               let (is_new_edge, seen) = hs_insert key (inner (seen_edges s));
                   s1 = s\<lparr>seen_edges := lock_set seen (seen_edges s)\<rparr>
               in
               if \<not> is_new_edge then (Inr ''node already exists!'', s1)
               else if poisoned (topo s1)
               then (Inl (EbpfEventRecordingFailed ''topology lock poisoned''), s1)
               else
                 (Inr ''saved event!'',
                  s1\<lparr>topo := lock_set
                       (record_call i (mk_node (pod_application_name p) (pod_namespace p))
                          (mk_node dst_app dst_ns) (inner (topo s1))) (topo s1)\<rparr>)))"

text \<open>The rows the flush timer writes: one per recorded flow, with the flow's names in place of
  the ports and host it no longer knows.\<close>

definition flow_row :: "u64 \<Rightarrow> flow \<Rightarrow> ebpf_network_event" where
  "flow_row now_ns f =
     \<lparr>timestamp_ns = now_ns,
      src_service = application_name (source_node f), src_namespace = namespace (source_node f),
      src_application = application_name (source_node f),
      dst_service = application_name (destination_node f), dst_namespace = namespace (destination_node f),
      dst_application = application_name (destination_node f),
      ev_src_port = 0, ev_dst_port = 0, ev_method = flow_method f, ev_path = flow_path f,
      ev_host = application_name (destination_node f)\<rparr>"

definition flush_rows :: "u64 \<Rightarrow> topology \<Rightarrow> ebpf_network_event list" where
  "flush_rows now_ns t = map (flow_row now_ns) (concat (map snd (downstream t)))"

text \<open>The attribution of an event: source node, destination node and edge key, if it is not dropped.
  This is the first half of \<open>record_ebpf_event\<close>, up to the seen set, without its effects;
  \<open>record_dropped\<close> and \<open>record_attributed\<close> below give the whole operation in terms of it.\<close>

definition edge_of :: "('p, 's, 'e) core_caches \<Rightarrow> ebpf_network_event_input \<Rightarrow> ('p, 's, 'e) core_state
    \<Rightarrow> (node_id \<times> node_id \<times> string) option" where
  "edge_of K i s =
     (if str_contains (in_path i) ''/health'' then None
      else case source_of (pods_ops K) (pod_cache s) (src_ip_str i) of
        None \<Rightarrow> None
      | Some p \<Rightarrow>
          let (dst_app, dst_ns) = destination_of K (envoy_cache s) (pod_cache s)
                (before_char (CHR '':'') (in_host i)) (dst_ip_str i)
          in Some (mk_node (pod_application_name p) (pod_namespace p), mk_node dst_app dst_ns,
               edge_key (pod_namespace p) (pod_service_name p) dst_ns
                 (dst_service_of (pods_ops K) (pod_cache s) (dst_ip_str i) dst_app)))"

section \<open>A sample state and event\<close>

definition two_pods :: "((string, pod_info) hash_map, (string, service_info) hash_map, (string, string \<times> string) hash_map) core_state" where
  "two_pods = (init_core hash_caches)\<lparr>pod_cache :=
     [(''10.0.0.1'', \<lparr>pod_namespace = ''default'', pod_application_name = ''svc-a'',
        pod_service_name = ''svc-a'', pod_service_type = ''ClusterIP''\<rparr>),
      (''10.0.0.2'', \<lparr>pod_namespace = ''default'', pod_application_name = ''svc-b'',
        pod_service_name = ''svc-b'', pod_service_type = ''ClusterIP''\<rparr>)]\<rparr>"

definition call_a_b :: ebpf_network_event_input where
  "call_a_b = \<lparr>in_timestamp_ns = 1, src_ip = 0x0100000A, dst_ip = 0x0200000A, in_src_port = 4000,
     in_dst_port = 80, in_method = ''GET'', in_path = ''/api'', in_host = ''whatever.example:80''\<rparr>"

section \<open>Host names\<close>

lemma splitn3:
  assumes "c \<notin> set a" and "c \<notin> set b"
  shows "splitn_char 3 c (a @ c # b @ c # r) = [a, b, r]"
  using assms by (simp add: numeral_3_eq_3 Let_def takeWhile_sep dropWhile_sep)

lemma parse_ipv4_letter:
  assumes "parse_ipv4 s = Some w"
  shows "CHR ''v'' \<notin> set s"
proof
  assume "CHR ''v'' \<in> set s"
  then have "CHR ''v'' \<in> set (str_join ''.'' (split_char (CHR ''.'') s))"
    by (simp add: str_join_split)
  moreover have "set (str_join sep ps) \<subseteq> set sep \<union> (\<Union>p \<in> set ps. set p)" for sep ps
    by (induction sep ps rule: str_join.induct) auto
  ultimately obtain p where p: "p \<in> set (split_char (CHR ''.'') s)" "CHR ''v'' \<in> set p"
    by fastforce
  have "\<not> is_digit (CHR ''v'')" by (simp add: is_digit_def)
  then have "\<not> list_all is_digit p" using p(2) by (auto simp: list_all_iff)
  then have "parse_octet p = None" by (simp add: parse_octet_def)
  then have "None \<in> set (map parse_octet (split_char (CHR ''.'') s))"
    using p(1) by force
  then show False using assms
    by (auto simp: parse_ipv4_def split: list.splits option.splits)
qed

text \<open>A host name of the form \<open>service.namespace.svc\<dots>\<close>, with or without a port.\<close>

lemma parse_fqdn:
  assumes "CHR ''.'' \<notin> set svc" and "CHR ''.'' \<notin> set ns" and "CHR '':'' \<notin> set svc" and "CHR '':'' \<notin> set ns"
  shows "parse_k8s_host (svc @ ''.'' @ ns @ ''.svc'' @ rest) = (svc, ns)"
proof -
  let ?r = "takeWhile (\<lambda>x. x \<noteq> CHR '':'') rest"
  let ?h = "svc @ ''.'' @ ns @ ''.svc'' @ ?r"
  have "takeWhile (\<lambda>x. x \<noteq> CHR '':'') (a @ b) = a @ takeWhile (\<lambda>x. x \<noteq> CHR '':'') b" if "CHR '':'' \<notin> set a" for a b
    using that by (induction a) auto
  then have host: "before_char (CHR '':'') (svc @ ''.'' @ ns @ ''.svc'' @ rest) = ?h"
    using assms(3,4) by (simp add: before_char_takeWhile)
  have noip: "parse_ipv4 ?h = None"
  proof (cases "parse_ipv4 ?h")
    case (Some w)
    from parse_ipv4_letter [OF this] show ?thesis by simp
  qed simp
  have dots: "str_contains ?h ''.''" "str_contains ?h ''.svc''"
    unfolding str_contains_iff by (metis append.assoc append_Cons append_Nil)+
  have "splitn_char 3 (CHR ''.'') ?h = [svc, ns, ''svc'' @ ?r]"
    using splitn3 [OF assms(1,2), of "''svc'' @ ?r"] by simp
  then show ?thesis
    unfolding parse_k8s_host_def host Let_def using noip dots by simp
qed

lemma parse_ip_host: "parse_k8s_host (ipv4_to_string w) = (ipv4_to_string w, ''unknown'')"
proof -
  obtain a b c d where o: "octets w = (a, b, c, d)" by (metis prod_cases4)
  have "CHR '':'' \<notin> set (ipv4_to_string w)"
    using octets_bound [OF o] by (simp add: ipv4_to_string_def o dotted_def octet_string)
  then show ?thesis
    by (simp add: parse_k8s_host_def parse_ipv4_to_string)
qed

section \<open>The edge key\<close>

text \<open>The key determines both services when namespaces have no slash and the source service no space.\<close>

lemma edge_key_inj:
  assumes "CHR ''/'' \<notin> set ns" "CHR ''/'' \<notin> set ns'" "CHR '' '' \<notin> set svc" "CHR '' '' \<notin> set svc'"
    and "CHR ''/'' \<notin> set ns2" "CHR ''/'' \<notin> set ns2'"
    and eq: "edge_key ns svc ns2 svc2 = edge_key ns' svc' ns2' svc2'"
  shows "ns = ns' \<and> svc = svc' \<and> ns2 = ns2' \<and> svc2 = svc2'"
proof -
  have "slash_key ns (svc @ '' -> '' @ slash_key ns2 svc2) = slash_key ns' (svc' @ '' -> '' @ slash_key ns2' svc2')"
    using eq by (simp add: edge_key_def slash_key_def)
  from slash_key_inj [OF assms(1,2) this]
  have 1: "ns = ns'" "svc @ CHR '' '' # ''-> '' @ slash_key ns2 svc2 = svc' @ CHR '' '' # ''-> '' @ slash_key ns2' svc2'"
    by simp_all
  have "svc = svc'" using 1(2) takeWhile_sep [OF assms(3)] takeWhile_sep [OF assms(4)] by metis
  moreover from this have "slash_key ns2 svc2 = slash_key ns2' svc2'" using 1(2) by simp
  from slash_key_inj [OF assms(5,6) this] have "ns2 = ns2'" "svc2 = svc2'" by simp_all
  ultimately show ?thesis using 1(1) by simp
qed

section \<open>Recording an event\<close>

lemma record_dropped:
  "edge_of K i s = None \<Longrightarrow> \<exists>msg. record_ebpf_event K i s = (Inr msg, s)"
  by (auto simp: edge_of_def record_ebpf_event_def Let_def split: if_splits option.splits prod.splits)

lemma record_attributed:
  "edge_of K i s = Some (src, dst, key) \<Longrightarrow>
     record_ebpf_event K i s =
       (if poisoned (seen_edges s) then (Inl (EbpfEventRecordingFailed ''seen_edges lock poisoned''), s)
        else if key \<in> set (inner (seen_edges s)) then (Inr ''node already exists!'', s)
        else
          let s1 = s\<lparr>seen_edges := lock_set (key # inner (seen_edges s)) (seen_edges s)\<rparr> in
          if poisoned (topo s)
          then (Inl (EbpfEventRecordingFailed ''topology lock poisoned''), s1)
          else (Inr ''saved event!'', s1\<lparr>topo := lock_set (record_call i src dst (inner (topo s))) (topo s)\<rparr>))"
  by (auto simp: edge_of_def record_ebpf_event_def Let_def hs_insert_def List.insert_def
      split: if_splits option.splits prod.splits)

text \<open>The state after an event, in one equation.\<close>

lemma record_state:
  "snd (record_ebpf_event K i s) =
     (case edge_of K i s of
        None \<Rightarrow> s
      | Some (src, dst, key) \<Rightarrow>
          if poisoned (seen_edges s) \<or> key \<in> set (inner (seen_edges s)) then s
          else
            let s1 = s\<lparr>seen_edges := lock_set (key # inner (seen_edges s)) (seen_edges s)\<rparr> in
            if poisoned (topo s) then s1
            else s1\<lparr>topo := lock_set (record_call i src dst (inner (topo s))) (topo s)\<rparr>)"
proof (cases "edge_of K i s")
  case None
  then show ?thesis using record_dropped [OF None] by auto
next
  case (Some e)
  then show ?thesis by (cases e) (simp add: record_attributed Let_def)
qed

lemma record_frame [simp]:
  "pod_cache (snd (record_ebpf_event K i s)) = pod_cache s"
  "service_cache (snd (record_ebpf_event K i s)) = service_cache s"
  "envoy_cache (snd (record_ebpf_event K i s)) = envoy_cache s"
  "spawned (snd (record_ebpf_event K i s)) = spawned s"
  "poisoned (seen_edges (snd (record_ebpf_event K i s))) = poisoned (seen_edges s)"
  "poisoned (topo (snd (record_ebpf_event K i s))) = poisoned (topo s)"
  by (simp_all add: record_state Let_def split: option.split prod.split)

lemma edge_of_record [simp]: "edge_of K j (snd (record_ebpf_event K i s)) = edge_of K j s"
  by (simp add: edge_of_def split: option.split)


lemma edge_of_source:
  assumes "edge_of K i s = Some (src, dst, key)"
  shows "\<exists>p. cache_get (pods_ops K) (pod_cache s) (src_ip_str i) = Some p \<and> pod_application_name p \<noteq> [] \<and>
    src = mk_node (pod_application_name p) (pod_namespace p)"
  using assms by (auto simp: edge_of_def source_of_def Let_def split: if_splits option.splits prod.splits)

text \<open>Two known pods and a host without a route: both ends are attributed by address.\<close>

lemma edge_of_known_pods:
  assumes "\<not> str_contains (in_path i) ''/health''"
    and "cache_get (pods_ops K) (pod_cache s) (src_ip_str i) = Some p" "pod_application_name p \<noteq> []"
    and "cache_get (pods_ops K) (pod_cache s) (dst_ip_str i) = Some d" "pod_application_name d \<noteq> []"
    and "envoy_get (envoy_ops K) (envoy_cache s) (before_char (CHR '':'') (in_host i)) = None"
  shows "edge_of K i s = Some (mk_node (pod_application_name p) (pod_namespace p),
    mk_node (pod_application_name d) (pod_namespace d), edge_key (pod_namespace p) (pod_service_name p) (pod_namespace d)
      (if pod_service_name d \<noteq> [] then pod_service_name d else pod_application_name d))"
  using assms by (simp add: edge_of_def source_of_def destination_of_def dst_service_of_def)

lemma record_call_graph:
  assumes "topo_inv t"
  shows "topo_inv (record_call i src dst t)"
    and "node_set (record_call i src dst t) = node_set t \<union> {src, dst}"
    and "flow_set (record_call i src dst t) =
      insert \<lparr>source_node = src, destination_node = dst, flow_path = in_path i, flow_method = in_method i\<rparr> (flow_set t)"
  using topo.record_edge [OF assms, where f = "\<lparr>source_node = src, destination_node = dst,
      flow_path = in_path i, flow_method = in_method i\<rparr>"]
  by (simp_all add: record_call_def Let_def)

lemma record_call_keys:
  "fst ` set (upstream (record_call i src dst t)) = insert dst (fst ` set (upstream t))"
  "fst ` set (downstream (record_call i src dst t)) = insert src (fst ` set (downstream t))"
  by (simp_all add: record_call_def Let_def add_flow_def add_node_def hm_modify_keys)

lemma record_call_data:
  "hm_get (nodes (record_call i src dst t)) n =
     (case hm_get (nodes t) n of
        Some d \<Rightarrow> Some d
      | None \<Rightarrow> if n = src then Some (node_data_of_ip (src_ip_str i))
                else if n = dst then Some (node_data_of_ip (dst_ip_str i)) else None)"
  by (auto simp: record_call_def Let_def add_flow_def add_node_def hm_contains_get hm_get_insert split: option.splits)

lemma record_call_flows:
  defines "f \<equiv> \<lambda>i src dst. \<lparr>source_node = src, destination_node = dst, flow_path = in_path i, flow_method = in_method i\<rparr>"
  shows "hm_vec (upstream (record_call i src dst t)) n =
      (if n = dst then push_new (f i src dst) (hm_vec (upstream t) n) else hm_vec (upstream t) n)"
    and "hm_vec (downstream (record_call i src dst t)) n =
      (if n = src then push_new (f i src dst) (hm_vec (downstream t) n) else hm_vec (downstream t) n)"
  by (simp_all add: f_def record_call_def Let_def add_flow_def add_node_def hm_get_modify)

lemma topo_inv_record_ebpf_event [topo_pres]:
  "topo_inv (inner (topo s)) \<Longrightarrow> topo_inv (inner (topo (snd (record_ebpf_event K i s))))"
  by (simp add: record_state Let_def record_call_graph split: option.split prod.split)

text \<open>Once an event is handled, its edge is either seen or the lock is poisoned: a second event of
  the same pair changes nothing.\<close>

lemma record_again:
  assumes "edge_of K j s = edge_of K i s"
  shows "snd (record_ebpf_event K j (snd (record_ebpf_event K i s))) = snd (record_ebpf_event K i s)"
proof (cases "edge_of K i s")
  case None
  then show ?thesis using assms by (simp add: record_state)
next
  case (Some e)
  obtain src dst key where e: "edge_of K i s = Some (src, dst, key)" using Some by (cases e) auto
  have "edge_of K j (snd (record_ebpf_event K i s)) = Some (src, dst, key)" using assms e by simp
  moreover have "poisoned (seen_edges (snd (record_ebpf_event K i s))) \<or>
      key \<in> set (inner (seen_edges (snd (record_ebpf_event K i s))))"
    using e by (simp add: record_state Let_def)
  ultimately show ?thesis by (subst record_state) auto
qed

section \<open>Properties\<close>

text \<open>C13. Health probes and requests whose source address belongs to no named pod are dropped with
  a successful answer, and the state does not change: no raw source address enters the graph.\<close>

theorem unattributed_dropped:
  assumes "str_contains (in_path i) ''/health'' \<or>
    (case cache_get (pods_ops K) (pod_cache s) (src_ip_str i) of
       None \<Rightarrow> True | Some p \<Rightarrow> pod_application_name p = [])"
  shows "\<exists>msg. record_ebpf_event K i s = (Inr msg, s)"
  using assms by (intro record_dropped) (auto simp: edge_of_def source_of_def split: option.splits)

theorem unattributed_dropped_witness:
  "\<exists>msg. record_ebpf_event hash_caches
     \<lparr>in_timestamp_ns = 1, src_ip = 0x0100000A, dst_ip = 0x0200000A, in_src_port = 4000, in_dst_port = 80,
      in_method = ''GET'', in_path = ''/api'', in_host = ''svc-b''\<rparr> (init_core hash_caches) =
     (Inr msg, init_core hash_caches)"
  by (rule unattributed_dropped) (simp add: init_core_def)

text \<open>Handling the same event again never changes the state: at-least-once delivery by the
  capture side is harmless, on every path including the failing ones.\<close>

theorem record_ebpf_event_idempotent:
  "snd (record_ebpf_event K i (snd (record_ebpf_event K i s))) = snd (record_ebpf_event K i s)"
  by (rule record_again) simp

text \<open>C15. An attributed event of a new pair is recorded completely: the answer is \<open>saved event!\<close>, its
  pair is remembered, and its flow is appended, unless it is there already, to the flows into its destination
  and out of its source and to no others. An endpoint that was no node becomes one with the
  address the packet gave; the data of every node that was there, its address and its events,
  is kept. The graph stays well formed, and nothing else of the state changes.\<close>

theorem new_edge_recorded:
  fixes i :: ebpf_network_event_input
  assumes "edge_of K i s = Some (src, dst, key)" and "key \<notin> set (inner (seen_edges s))"
    and "\<not> poisoned (seen_edges s)" and "\<not> poisoned (topo s)" and "topo_inv (inner (topo s))"
  defines "f \<equiv> \<lparr>source_node = src, destination_node = dst, flow_path = in_path i, flow_method = in_method i\<rparr>"
    and "t \<equiv> inner (topo s)"
  shows "\<exists>seen t'. record_ebpf_event K i s =
      (Inr ''saved event!'', s\<lparr>seen_edges := lock_set seen (seen_edges s), topo := lock_set t' (topo s)\<rparr>) \<and>
    set seen = insert key (set (inner (seen_edges s))) \<and>
    (\<forall>n. hm_get (nodes t') n = (case hm_get (nodes t) n of Some d \<Rightarrow> Some d
       | None \<Rightarrow> if n = src then Some (node_data_of_ip (src_ip_str i))
                 else if n = dst then Some (node_data_of_ip (dst_ip_str i)) else None)) \<and>
    (\<forall>n. hm_vec (upstream t') n = (if n = dst then push_new f (hm_vec (upstream t) n) else hm_vec (upstream t) n)) \<and>
    (\<forall>n. hm_vec (downstream t') n = (if n = src then push_new f (hm_vec (downstream t) n) else hm_vec (downstream t) n)) \<and>
    node_set t' = node_set t \<union> {src, dst} \<and> flow_set t' = insert f (flow_set t) \<and> topo_inv t'"
proof -
  let ?t' = "record_call i src dst t"
  have "record_ebpf_event K i s = (Inr ''saved event!'',
      s\<lparr>seen_edges := lock_set (key # inner (seen_edges s)) (seen_edges s), topo := lock_set ?t' (topo s)\<rparr>)"
    using assms(1-4) by (simp add: record_attributed Let_def t_def)
  moreover have "topo_inv t" using assms(5) by (simp add: t_def)
  ultimately show ?thesis
    using record_call_graph record_call_data record_call_flows
    by (intro exI [of _ "key # inner (seen_edges s)"] exI [of _ ?t'])
      (simp add: f_def)
qed

lemma call_a_b_addresses: "src_ip_str call_a_b = ''10.0.0.1''" "dst_ip_str call_a_b = ''10.0.0.2''"
  by (simp_all add: src_ip_str_def dst_ip_str_def call_a_b_def u32_from_be_def octets_def u32_of_octets_def
      ipv4_to_string_def dotted_def nat_str.simps char_of_def bit_0)

lemma call_a_b_edge:
  "edge_of hash_caches call_a_b two_pods =
     Some (mk_node ''svc-a'' ''default'', mk_node ''svc-b'' ''default'', ''default/svc-a -> default/svc-b'')"
proof -
  have "\<not> str_contains (in_path call_a_b) ''/health''" by code_simp
  then show ?thesis
    by (simp add: edge_of_def call_a_b_addresses source_of_def destination_of_def dst_service_of_def
        envoy_get_def two_pods_def init_core_def envoy_new_def edge_key_def)
qed

lemma two_pods_sel [simp]:
  "seen_edges two_pods = new_lock []" "topo two_pods = new_lock new_topology"
  by (simp_all add: two_pods_def init_core_def)

theorem new_edge_recorded_witness:
  "\<lparr>source_node = mk_node ''svc-a'' ''default'', destination_node = mk_node ''svc-b'' ''default'',
     flow_path = ''/api'', flow_method = ''GET''\<rparr> \<in> flow_set (inner (topo (snd (record_ebpf_event hash_caches call_a_b two_pods)))) \<and>
   hm_get (nodes (inner (topo (snd (record_ebpf_event hash_caches call_a_b two_pods))))) (mk_node ''svc-b'' ''default'') =
     Some (node_data_of_ip ''10.0.0.2'')"
proof -
  have pre: "''default/svc-a -> default/svc-b'' \<notin> set (inner (seen_edges two_pods))" "\<not> poisoned (seen_edges two_pods)"
    "\<not> poisoned (topo two_pods)" "topo_inv (inner (topo two_pods))"
    by simp_all
  obtain seen t' where r: "record_ebpf_event hash_caches call_a_b two_pods =
      (Inr ''saved event!'', two_pods\<lparr>seen_edges := lock_set seen (seen_edges two_pods), topo := lock_set t' (topo two_pods)\<rparr>)"
    and f: "flow_set t' = insert \<lparr>source_node = mk_node ''svc-a'' ''default'', destination_node = mk_node ''svc-b'' ''default'',
        flow_path = in_path call_a_b, flow_method = in_method call_a_b\<rparr> (flow_set (inner (topo two_pods)))"
    and n: "\<And>n. hm_get (nodes t') n = (case hm_get (nodes (inner (topo two_pods))) n of Some d \<Rightarrow> Some d
       | None \<Rightarrow> if n = mk_node ''svc-a'' ''default'' then Some (node_data_of_ip (src_ip_str call_a_b))
                 else if n = mk_node ''svc-b'' ''default'' then Some (node_data_of_ip (dst_ip_str call_a_b)) else None)"
    using new_edge_recorded [OF call_a_b_edge pre] by (elim exE conjE) metis
  have t': "inner (topo (snd (record_ebpf_event hash_caches call_a_b two_pods))) = t'" by (simp add: r lock_set_def)
  show ?thesis
    unfolding t' f n by (simp add: call_a_b_addresses new_topology_def) (simp add: call_a_b_def)
qed



text \<open>Distinct pairs are never confused: with namespaces free of slashes and source services
  free of spaces, as Kubernetes names are, equal edge keys mean equal services on both sides.\<close>

theorem edge_key_injective:
  assumes "CHR ''/'' \<notin> set ns" "CHR ''/'' \<notin> set ns'" "CHR '' '' \<notin> set svc" "CHR '' '' \<notin> set svc'"
    and "CHR ''/'' \<notin> set ns2" "CHR ''/'' \<notin> set ns2'"
  shows "edge_key ns svc ns2 svc2 = edge_key ns' svc' ns2' svc2' \<longleftrightarrow>
    ns = ns' \<and> svc = svc' \<and> ns2 = ns2' \<and> svc2 = svc2'"
  using edge_key_inj [OF assms] by auto

theorem edge_key_injective_witness:
  "edge_key ''default'' ''svc-a'' ''default'' ''svc-b'' \<noteq> edge_key ''default'' ''svc-a'' ''prod'' ''svc-b''"
  using edge_key_injective [of "''default''" "''default''" "''svc-a''" "''svc-a''" "''default''" "''prod''" "''svc-b''" "''svc-b''"]
  by simp

text \<open>Kubernetes DNS names are read back exactly: any host of the form
  \<open>service.namespace.svc\<dots>\<close>, whatever follows (cluster domain, port), gives that service and
  namespace.\<close>

theorem k8s_host_roundtrip:
  assumes "CHR ''.'' \<notin> set svc" and "CHR ''.'' \<notin> set ns" and "CHR '':'' \<notin> set svc" and "CHR '':'' \<notin> set ns"
  shows "parse_k8s_host (svc @ ''.'' @ ns @ ''.svc'' @ rest) = (svc, ns)"
  using assms by (rule parse_fqdn)

theorem k8s_host_roundtrip_witness:
  "parse_k8s_host ''service-b.default.svc.cluster.local:80'' = (''service-b'', ''default'')"
  using k8s_host_roundtrip [of "''service-b''" "''default''" "''.cluster.local:80''"] by simp

text \<open>A raw address as host stays the raw address under the namespace \<open>unknown\<close>, so the node it
  makes is the one that a later pod notification for that address heals; printing and parsing an
  address are inverse.\<close>

theorem raw_address_host:
  "parse_ipv4 (ipv4_to_string w) = Some w \<and>
   (case parse_k8s_host (ipv4_to_string w) of (app, ns) \<Rightarrow> mk_node app ns = stale_id_of (ipv4_to_string w))"
  by (simp add: parse_ipv4_to_string parse_ip_host stale_id_of_def)

end
