(* ===== verification/Grpc_Server.thy ===== *)
theory Grpc_Server
  imports K8s_Aggregator Ebpf_Aggregator
begin

text \<open>
  The \<open>EventIngestion\<close> service of \<^verbatim>\<open>core/src/server/grpc.rs\<close>: its requests (the
  messages of \<^verbatim>\<open>core/proto/qubit.proto\<close>), its seven handlers, and Core as a state
  machine whose steps are the arrival of a request and the execution of one of
  the tasks that handlers have spawned, in any order.
\<close>

section \<open>Messages\<close>

datatype k8s_event_type = Applied | Deleted

text \<open>\<open>K8sEventType::try_from(i32)\<close>: the two values of the enum, anything else is refused.\<close>

definition k8s_event_type_try_from :: "32 word \<Rightarrow> k8s_event_type option" where
  "k8s_event_type_try_from w = (if w = 0 then Some Applied else if w = 1 then Some Deleted else None)"

datatype status = InvalidArgument string | Internal string

record rpc_response =
  success :: bool
  message :: string

record ebpf_network_event_request =
  rq_timestamp_ns :: u64
  rq_src_ip :: u32
  rq_dst_ip :: u32
  rq_src_port :: u32
  rq_dst_port :: u32
  rq_method :: string
  rq_path :: string
  rq_host :: string

record pod_event_request =
  pe_pod_ip :: string
  pe_namespace :: string
  pe_event_type :: "32 word"
  pe_application_name :: string
  pe_service_name :: string
  pe_service_type :: string

record service_event_request =
  se_name :: string
  se_namespace :: string
  se_service_type :: string
  se_cluster_ip :: string
  se_event_type :: "32 word"

record config_map_event_request =
  cm_name :: string
  cm_namespace :: string
  cm_event_type :: "32 word"

record service_pod_entry =
  sp_service_name :: string
  sp_namespace :: string
  sp_service_type :: string
  sp_pod_ips :: "string list"
  sp_application_name :: string

record k8s_resource_event_request =
  rr_resource_type :: string
  rr_name :: string
  rr_namespace :: string
  rr_event_type :: "32 word"
  rr_labels :: "(string, string) hash_map"
  rr_resource_data :: string

record envoy_route_entry =
  er_domain :: string
  er_service_name :: string
  er_namespace :: string

section \<open>Handlers\<close>

type_synonym rpc_result = "(rpc_response, status) rust_result"

definition ok_response :: "string \<Rightarrow> rpc_result" where
  "ok_response msg = Inr \<lparr>success = True, message = msg\<rparr>"

text \<open>The event is recorded by a spawned task; the answer does not wait for it.\<close>

definition send_ebpf_network_event :: "ebpf_network_event_request \<Rightarrow> ('p, 's, 'e) core_state
    \<Rightarrow> rpc_result \<times> ('p, 's, 'e) core_state" where
  "send_ebpf_network_event req s =
     (let input = \<lparr>in_timestamp_ns = rq_timestamp_ns req, src_ip = rq_src_ip req, dst_ip = rq_dst_ip req,
                   in_src_port = ucast (rq_src_port req), in_dst_port = ucast (rq_dst_port req),
                   in_method = rq_method req, in_path = rq_path req, in_host = rq_host req\<rparr>
      in (ok_response ''Event received'', s\<lparr>spawned := spawned s @ [RecordEbpf input]\<rparr>))"

definition send_pod_event :: "('p, 's, 'e) core_caches \<Rightarrow> pod_event_request \<Rightarrow> ('p, 's, 'e) core_state
    \<Rightarrow> rpc_result \<times> ('p, 's, 'e) core_state" where
  "send_pod_event K req s =
     (case k8s_event_type_try_from (pe_event_type req) of
        Some Applied \<Rightarrow>
          (ok_response ''ok'', record_pod_applied K (pe_pod_ip req) (pe_namespace req)
             (pe_application_name req) (pe_service_name req) (pe_service_type req) s)
      | Some Deleted \<Rightarrow> (ok_response ''ok'', record_pod_deleted K (pe_pod_ip req) s)
      | None \<Rightarrow> (Inl (InvalidArgument ''unknown event type''), s))"

definition send_service_event :: "('p, 's, 'e) core_caches \<Rightarrow> service_event_request \<Rightarrow> ('p, 's, 'e) core_state
    \<Rightarrow> rpc_result \<times> ('p, 's, 'e) core_state" where
  "send_service_event K req s =
     (case k8s_event_type_try_from (se_event_type req) of
        Some Applied \<Rightarrow>
          (ok_response ''ok'', record_service_applied K (se_name req) (se_namespace req)
             (se_service_type req) (se_cluster_ip req) s)
      | Some Deleted \<Rightarrow> (ok_response ''ok'', record_service_deleted K (se_name req) (se_namespace req) s)
      | None \<Rightarrow> (Inl (InvalidArgument ''unknown event type''), s))"

definition send_config_map_event :: "config_map_event_request \<Rightarrow> ('p, 's, 'e) core_state
    \<Rightarrow> rpc_result \<times> ('p, 's, 'e) core_state" where
  "send_config_map_event req s =
     (case k8s_event_type_try_from (cm_event_type req) of
        Some Applied \<Rightarrow> (ok_response ''ok'', s)
      | Some Deleted \<Rightarrow> (ok_response ''ok'', s)
      | None \<Rightarrow> (Inl (InvalidArgument ''unknown event type''), s))"

definition apply_pod_entry :: "('p, 's, 'e) core_caches \<Rightarrow> service_pod_entry \<Rightarrow> ('p, 's, 'e) core_state
    \<Rightarrow> ('p, 's, 'e) core_state" where
  "apply_pod_entry K entry s =
     fold (\<lambda>pod_ip. record_pod_applied K pod_ip (sp_namespace entry) (sp_application_name entry)
             (sp_service_name entry) (sp_service_type entry)) (sp_pod_ips entry) s"

definition send_service_pod_map :: "('p, 's, 'e) core_caches \<Rightarrow> service_pod_entry list \<Rightarrow> ('p, 's, 'e) core_state
    \<Rightarrow> rpc_result \<times> ('p, 's, 'e) core_state" where
  "send_service_pod_map K entries s =
     (ok_response (''Applied '' @ nat_str (length entries) @ '' service entries''),
      fold (apply_pod_entry K) entries s)"

definition send_k8s_resource_event :: "((string, string) hash_map \<Rightarrow> string) \<Rightarrow> u64 \<Rightarrow> k8s_resource_event_request
    \<Rightarrow> ('p, 's, 'e) core_state \<Rightarrow> rpc_result \<times> ('p, 's, 'e) core_state" where
  "send_k8s_resource_event to_json now req s =
     (case (case k8s_event_type_try_from (rr_event_type req) of
              Some Applied \<Rightarrow> Some ''Applied'' | Some Deleted \<Rightarrow> Some ''Deleted'' | None \<Rightarrow> None) of
        None \<Rightarrow> (Inl (InvalidArgument ''unknown event type''), s)
      | Some event_type_str \<Rightarrow>
          (ok_response ''ok'', record_k8s_resource_event to_json now (rr_resource_type req) (rr_name req)
             (rr_namespace req) event_type_str (rr_labels req) (rr_resource_data req) s))"

definition send_envoy_routes :: "('p, 's, 'e) core_caches \<Rightarrow> envoy_route_entry list \<Rightarrow> ('p, 's, 'e) core_state
    \<Rightarrow> rpc_result \<times> ('p, 's, 'e) core_state" where
  "send_envoy_routes K entries s =
     (ok_response (''Applied '' @ nat_str (length entries) @ '' entries''),
      s\<lparr>envoy_cache := fold (\<lambda>entry. envoy_insert (envoy_ops K) (er_domain entry) (er_service_name entry)
                                  (er_namespace entry)) entries (envoy_cache s)\<rparr>)"

section \<open>Core as a state machine\<close>

datatype rpc =
    SendEbpfNetworkEvent ebpf_network_event_request
  | SendPodEvent pod_event_request
  | SendServiceEvent service_event_request
  | SendConfigMapEvent config_map_event_request
  | SendServicePodMap "service_pod_entry list"
  | SendK8sResourceEvent k8s_resource_event_request
  | SendEnvoyRoutes "envoy_route_entry list"

fun handle_rpc :: "('p, 's, 'e) core_caches \<Rightarrow> ((string, string) hash_map \<Rightarrow> string) \<Rightarrow> u64 \<Rightarrow> rpc
    \<Rightarrow> ('p, 's, 'e) core_state \<Rightarrow> rpc_result \<times> ('p, 's, 'e) core_state" where
  "handle_rpc K to_json now (SendEbpfNetworkEvent r) s = send_ebpf_network_event r s"
| "handle_rpc K to_json now (SendPodEvent r) s = send_pod_event K r s"
| "handle_rpc K to_json now (SendServiceEvent r) s = send_service_event K r s"
| "handle_rpc K to_json now (SendConfigMapEvent r) s = send_config_map_event r s"
| "handle_rpc K to_json now (SendServicePodMap es) s = send_service_pod_map K es s"
| "handle_rpc K to_json now (SendK8sResourceEvent r) s = send_k8s_resource_event to_json now r s"
| "handle_rpc K to_json now (SendEnvoyRoutes es) s = send_envoy_routes K es s"

text \<open>The event type a request carries, if it has one.\<close>

fun rpc_event_type :: "rpc \<Rightarrow> 32 word option" where
  "rpc_event_type (SendPodEvent r) = Some (pe_event_type r)"
| "rpc_event_type (SendServiceEvent r) = Some (se_event_type r)"
| "rpc_event_type (SendConfigMapEvent r) = Some (cm_event_type r)"
| "rpc_event_type (SendK8sResourceEvent r) = Some (rr_event_type r)"
| "rpc_event_type _ = None"

text \<open>Requests arrive in any order, and any spawned task may be the next to run.\<close>

inductive core_step :: "('p, 's, 'e) core_caches \<Rightarrow> ((string, string) hash_map \<Rightarrow> string)
    \<Rightarrow> ('p, 's, 'e) core_state \<Rightarrow> ('p, 's, 'e) core_state \<Rightarrow> bool"
  for K :: "('p, 's, 'e) core_caches" and to_json :: "(string, string) hash_map \<Rightarrow> string" where
  request: "core_step K to_json s (snd (handle_rpc K to_json now r s))"
| record_event: "spawned s = xs @ RecordEbpf i # ys \<Longrightarrow>
    core_step K to_json s (snd (record_ebpf_event K i (s\<lparr>spawned := xs @ ys\<rparr>)))"
| persist: "spawned s = xs @ PersistK8s e # ys \<Longrightarrow> core_step K to_json s (s\<lparr>spawned := xs @ ys\<rparr>)"

inductive core_reachable :: "('p, 's, 'e) core_caches \<Rightarrow> ((string, string) hash_map \<Rightarrow> string)
    \<Rightarrow> ('p, 's, 'e) core_state \<Rightarrow> bool"
  for K :: "('p, 's, 'e) core_caches" and to_json :: "(string, string) hash_map \<Rightarrow> string" where
  start: "core_reachable K to_json (init_core K)"
| step: "core_reachable K to_json s \<Longrightarrow> core_step K to_json s s' \<Longrightarrow> core_reachable K to_json s'"

text \<open>What holds in every reachable state: a well-formed graph in which every caller has a name
  and every node takes part in a call, no more flows than service pairs seen, and healthy locks.\<close>

definition sources_named :: "topology \<Rightarrow> bool" where
  "sources_named t \<longleftrightarrow> (\<forall>f \<in> flow_set t. application_name (source_node f) \<noteq> [])"

definition no_isolated :: "topology \<Rightarrow> bool" where
  "no_isolated t \<longleftrightarrow> node_set t = source_node ` flow_set t \<union> destination_node ` flow_set t"

definition core_inv :: "('p, 's, 'e) core_state \<Rightarrow> bool" where
  "core_inv s \<longleftrightarrow> topo_inv (inner (topo s)) \<and> sources_named (inner (topo s)) \<and>
     no_isolated (inner (topo s)) \<and>
     card (flow_set (inner (topo s))) \<le> card (set (inner (seen_edges s))) \<and>
     \<not> poisoned (seen_edges s) \<and> \<not> poisoned (topo s)"

inductive_cases core_stepE: "core_step K to_json s s'"

section \<open>Every operation keeps the invariant\<close>

named_theorems core_pres \<open>operations keep the invariant of Core\<close>

lemma empty_graph [simp]: "node_set new_topology = {}" "flow_set new_topology = {}"
  by (simp_all add: node_set_def flow_set_def new_topology_def)

lemma finite_flow_set [simp]: "finite (flow_set t)"
  by (simp add: flow_set_def)

lemma core_inv_init [core_pres]: "core_inv (init_core K)"
  by (simp add: core_inv_def init_core_def sources_named_def no_isolated_def topo_inv_new)

lemma heal_keeps:
  fixes a ns :: string
  assumes "topo_inv t" and "sources_named t" and "no_isolated t" and "app \<noteq> []"
  defines "t' \<equiv> resolve_unknown_node a app ns t"
  shows "sources_named t'" and "no_isolated t'" and "card (flow_set t') \<le> card (flow_set t)"
proof (atomize (full), cases "stale_id_of a \<in> node_set t")
  case True
  have "sources_named t'"
    using True assms by (auto simp: sources_named_def topo.flows_heal rename_node_def)
  moreover have "no_isolated t'"
    using True assms(1,3)
    by (simp add: t'_def no_isolated_def topo.flows_heal topo.nodes_heal image_Un image_image rename_flow_def)
  moreover have "card (flow_set t') \<le> card (flow_set t)"
    using True assms(1) by (simp add: t'_def topo.flows_heal card_image_le)
  ultimately show "sources_named t' \<and> no_isolated t' \<and> card (flow_set t') \<le> card (flow_set t)" by simp
next
  case False
  then show "sources_named t' \<and> no_isolated t' \<and> card (flow_set t') \<le> card (flow_set t)"
    using assms by (simp add: resolve_noop)
qed

lemma core_inv_record_pod_applied [core_pres]:
  assumes "core_inv s"
  shows "core_inv (record_pod_applied K a ns app svc ty s)"
proof (cases "app = []")
  case True
  then show ?thesis using assms by (simp add: core_inv_def topo_record_pod_applied)
next
  case False
  then show ?thesis
    using assms heal_keeps [of "inner (topo s)" app a ns]
    by (simp add: core_inv_def topo_pres topo_record_pod_applied)
qed

lemma event_keeps_graph [simp]:
  "node_set (add_k8s_event n e t) = node_set t" "flow_set (add_k8s_event n e t) = flow_set t"
  by (simp_all add: flow_set_def)

lemma core_inv_record_k8s_resource_event [core_pres]:
  "core_inv s \<Longrightarrow> core_inv (record_k8s_resource_event tj now rt n ns et ls rd s)"
  by (simp add: core_inv_def topo_pres topo_record_k8s_resource_event sources_named_def no_isolated_def)

lemma record_call_keeps:
  fixes i :: ebpf_network_event_input and dst :: node_id
  assumes "topo_inv t" and "sources_named t" and "no_isolated t" and "application_name src \<noteq> []"
  defines "t' \<equiv> record_call i src dst t"
  shows "sources_named t'" and "no_isolated t'" and "card (flow_set t') \<le> Suc (card (flow_set t))"
  using assms by (auto simp: sources_named_def no_isolated_def record_call_graph card_insert_if)

lemma core_inv_record_ebpf_event [core_pres]:
  assumes "core_inv s"
  shows "core_inv (snd (record_ebpf_event K i s))"
proof (cases "edge_of K i s")
  case None
  then show ?thesis using assms by (simp add: record_state)
next
  case (Some e)
  then obtain src dst key where e: "edge_of K i s = Some (src, dst, key)" by (cases e) auto
  from edge_of_source [OF e] have "application_name src \<noteq> []" by auto
  then show ?thesis
    using e assms record_call_keeps [of "inner (topo s)" src i dst]
    by (simp add: record_state Let_def core_inv_def record_call_graph)
qed

lemma core_inv_frame:
  "topo s' = topo s \<Longrightarrow> seen_edges s' = seen_edges s \<Longrightarrow> core_inv s' = core_inv s"
  by (simp add: core_inv_def)

lemma core_inv_spawned [simp]: "core_inv (s\<lparr>spawned := ts\<rparr>) = core_inv s"
  by (rule core_inv_frame) simp_all

lemma core_inv_fold:
  "core_inv s \<Longrightarrow> (\<And>x s. core_inv s \<Longrightarrow> core_inv (f x s)) \<Longrightarrow> core_inv (fold f xs s)"
  by (induction xs arbitrary: s) simp_all

lemma core_inv_cache_updates [simp]:
  "core_inv (s\<lparr>pod_cache := c\<rparr>) = core_inv s"
  "core_inv (s\<lparr>service_cache := d\<rparr>) = core_inv s"
  "core_inv (s\<lparr>envoy_cache := e\<rparr>) = core_inv s"
  by (rule core_inv_frame; simp)+

lemma core_inv_send_pod_event [core_pres]: "core_inv s \<Longrightarrow> core_inv (snd (send_pod_event K r s))"
  by (simp add: send_pod_event_def core_inv_record_pod_applied record_pod_deleted_def
      split: option.split k8s_event_type.split)

lemma core_inv_send_service_event [core_pres]: "core_inv s \<Longrightarrow> core_inv (snd (send_service_event K r s))"
  by (simp add: send_service_event_def record_service_applied_def record_service_deleted_def
      split: option.split k8s_event_type.split)

lemma core_inv_send_config_map_event [core_pres]: "core_inv s \<Longrightarrow> core_inv (snd (send_config_map_event r s))"
  by (simp add: send_config_map_event_def split: option.split k8s_event_type.split)

lemma core_inv_apply_pod_entry [core_pres]: "core_inv s \<Longrightarrow> core_inv (apply_pod_entry K e s)"
  by (simp add: apply_pod_entry_def core_inv_fold core_inv_record_pod_applied)

lemma core_inv_send_k8s_resource_event [core_pres]:
  "core_inv s \<Longrightarrow> core_inv (snd (send_k8s_resource_event tj now r s))"
  by (simp add: send_k8s_resource_event_def core_inv_record_k8s_resource_event
      split: option.split k8s_event_type.split)

lemma core_inv_handle_rpc [core_pres]:
  assumes "core_inv s"
  shows "core_inv (snd (handle_rpc K to_json now r s))"
proof (cases r)
  case (SendServicePodMap es)
  have "core_inv (fold (apply_pod_entry K) es s)"
    using assms by (rule core_inv_fold) (rule core_inv_apply_pod_entry)
  then show ?thesis using SendServicePodMap by (simp add: send_service_pod_map_def)
qed (use assms in \<open>simp_all add: core_pres send_ebpf_network_event_def send_envoy_routes_def Let_def\<close>)

lemma core_inv_step: "core_step K to_json s s' \<Longrightarrow> core_inv s \<Longrightarrow> core_inv s'"
  by (induction rule: core_step.induct) (simp_all add: core_pres)

lemma core_inv_reachable: "core_reachable K to_json s \<Longrightarrow> core_inv s"
  by (induction rule: core_reachable.induct) (auto intro: core_inv_init core_inv_step)

section \<open>Batches\<close>

lemma snapshot_fold:
  "fold (apply_pod_entry K) entries s =
     fold (\<lambda>(pod_ip, e). record_pod_applied K pod_ip (sp_namespace e) (sp_application_name e)
         (sp_service_name e) (sp_service_type e))
       (concat (map (\<lambda>e. map (\<lambda>pod_ip. (pod_ip, e)) (sp_pod_ips e)) entries)) s"
  by (induction entries arbitrary: s) (simp_all add: apply_pod_entry_def fold_map comp_def)

lemma snapshot_lookup:
  assumes "cache_laws (pods_ops K)"
  shows "cache_get (pods_ops K) (pod_cache (fold (apply_pod_entry K) entries s)) a =
    (case find (\<lambda>e. a \<in> set (sp_pod_ips e)) (rev entries) of
       None \<Rightarrow> cache_get (pods_ops K) (pod_cache s) a
     | Some e \<Rightarrow> Some \<lparr>pod_namespace = sp_namespace e, pod_application_name = sp_application_name e,
                      pod_service_name = sp_service_name e, pod_service_type = sp_service_type e\<rparr>)"
proof (induction entries rule: rev_induct)
  case Nil
  then show ?case by simp
next
  case (snoc e es)
  have "cache_get (pods_ops K) (pod_cache (fold (\<lambda>pod_ip. record_pod_applied K pod_ip (sp_namespace e)
         (sp_application_name e) (sp_service_name e) (sp_service_type e)) ips s)) a =
      (if a \<in> set ips
       then Some \<lparr>pod_namespace = sp_namespace e, pod_application_name = sp_application_name e,
                  pod_service_name = sp_service_name e, pod_service_type = sp_service_type e\<rparr>
       else cache_get (pods_ops K) (pod_cache s) a)" for ips s
    by (induction ips rule: rev_induct) (auto simp: get_record_pod_applied [OF assms])
  then show ?case using snoc by (simp add: apply_pod_entry_def)
qed

text \<open>A node that no later pod is called by does not come back.\<close>

lemma snapshot_heals:
  assumes "core_inv s" and "a \<in> fst ` set ps"
    and "\<forall>(pod_ip, e) \<in> set ps. sp_application_name e \<noteq> [] \<and> sp_namespace e \<noteq> ''unknown''"
  shows "stale_id_of a \<notin> node_set (inner (topo (fold (\<lambda>(pod_ip, e). record_pod_applied K pod_ip (sp_namespace e)
     (sp_application_name e) (sp_service_name e) (sp_service_type e)) ps s)))"
  using assms
proof (induction ps arbitrary: s rule: rev_induct)
  case Nil
  then show ?case by simp
next
  case (snoc p ps)
  obtain ip e where p: "p = (ip, e)" by (cases p)
  let ?s = "fold (\<lambda>(pod_ip, e). record_pod_applied K pod_ip (sp_namespace e) (sp_application_name e)
     (sp_service_name e) (sp_service_type e)) ps s"
  let ?t = "inner (topo ?s)"
  have e: "sp_application_name e \<noteq> []" "sp_namespace e \<noteq> ''unknown''" using snoc.prems(3) p by auto
  have "core_inv ?s"
    using snoc.prems(1) by (rule core_inv_fold) (auto intro: core_inv_record_pod_applied)
  then have ok: "\<not> poisoned (topo ?s)" by (simp add: core_inv_def)
  have "stale_id_of a \<notin> node_set (resolve_unknown_node ip (sp_application_name e) (sp_namespace e) ?t)"
  proof (cases "ip = a")
    case True
    then have "mk_node (sp_application_name e) (sp_namespace e) \<noteq> stale_id_of ip"
      using e(2) by (simp add: stale_id_of_def)
    then show ?thesis using True by (simp add: topo.heal_removes_node)
  next
    case False
    then have "stale_id_of a \<notin> node_set ?t" using snoc p by auto
    then show ?thesis
      using e(2) by (cases "stale_id_of ip \<in> node_set ?t")
        (auto simp: topo.nodes_heal resolve_noop rename_node_def stale_id_of_def split: if_splits)
  qed
  then show ?case using ok e(1) p by (simp add: topo_record_pod_applied)
qed

lemma routes_lookup:
  assumes "cache_laws (envoy_ops K)"
  shows "envoy_get (envoy_ops K) (envoy_cache (snd (send_envoy_routes K entries s))) d =
    (case find (\<lambda>e. er_domain e = d) (rev entries) of
       None \<Rightarrow> envoy_get (envoy_ops K) (envoy_cache s) d
     | Some e \<Rightarrow> Some (er_service_name e, er_namespace e))"
  unfolding send_envoy_routes_def
  by (induction entries rule: rev_induct) (simp_all add: envoy_get_def envoy_insert_def cache_get_insert [OF assms])

section \<open>A sample run\<close>

lemma two_pods_snapshot:
  "snd (send_service_pod_map hash_caches
     [\<lparr>sp_service_name = ''svc-a'', sp_namespace = ''default'', sp_service_type = ''ClusterIP'',
       sp_pod_ips = [''10.0.0.1''], sp_application_name = ''svc-a''\<rparr>,
      \<lparr>sp_service_name = ''svc-b'', sp_namespace = ''default'', sp_service_type = ''ClusterIP'',
       sp_pod_ips = [''10.0.0.2''], sp_application_name = ''svc-b''\<rparr>] (init_core hash_caches)) = two_pods"
  by (simp add: send_service_pod_map_def apply_pod_entry_def record_pod_applied_def Let_def two_pods_def
      init_core_def resolve_noop lock_set_def new_lock_def)

lemma two_pods_reachable: "core_reachable hash_caches to_json two_pods"
  using core_reachable.step [OF core_reachable.start core_step.request] two_pods_snapshot
  by (metis handle_rpc.simps(5))

section \<open>Properties\<close>

text \<open>Whatever requests Core receives and in whatever order it runs the tasks they spawn, the
  graph is well formed, every caller has an application name, every node is an endpoint of a
  flow, there are at most as many flows as service pairs seen, and recording any event succeeds.\<close>

theorem core_reachable_wellformed:
  assumes "core_reachable K to_json s"
  shows "topo_inv (inner (topo s)) \<and>
    (\<forall>f \<in> flow_set (inner (topo s)). application_name (source_node f) \<noteq> []) \<and>
    node_set (inner (topo s)) = source_node ` flow_set (inner (topo s)) \<union> destination_node ` flow_set (inner (topo s)) \<and>
    card (flow_set (inner (topo s))) \<le> card (set (inner (seen_edges s))) \<and>
    (\<exists>msg. fst (record_ebpf_event K i s) = Inr msg)"
proof -
  have inv: "core_inv s" using assms by (rule core_inv_reachable)
  have "\<exists>msg. fst (record_ebpf_event K i s) = Inr msg"
  proof (cases "edge_of K i s")
    case None
    then show ?thesis using record_dropped [OF None] by auto
  next
    case (Some e)
    then show ?thesis using inv by (cases e) (simp add: record_attributed core_inv_def Let_def)
  qed
  then show ?thesis using inv by (simp add: core_inv_def sources_named_def no_isolated_def)
qed

theorem core_reachable_wellformed_witness:
  "topo_inv (inner (topo (snd (handle_rpc hash_caches (\<lambda>_. ''{}'') 7
     (SendServicePodMap [\<lparr>sp_service_name = ''a'', sp_namespace = ''default'', sp_service_type = ''ClusterIP'',
        sp_pod_ips = [''10.0.0.1''], sp_application_name = ''a''\<rparr>]) (init_core hash_caches)))))"
  using core_reachable_wellformed [OF core_reachable.step [OF core_reachable.start core_step.request]] by blast

text \<open>C21. A request fails exactly when it carries an event type other than \<open>APPLIED\<close> (0) and
  \<open>DELETED\<close> (1), and then with \<open>INVALID_ARGUMENT\<close> and without any effect.\<close>

theorem rpc_fails_iff:
  "(handle_rpc K to_json now r s = (Inl (InvalidArgument ''unknown event type''), s)
     \<longleftrightarrow> (\<exists>w. rpc_event_type r = Some w \<and> w \<noteq> 0 \<and> w \<noteq> 1)) \<and>
   ((\<exists>e. fst (handle_rpc K to_json now r s) = Inl e) \<longleftrightarrow> (\<exists>w. rpc_event_type r = Some w \<and> w \<noteq> 0 \<and> w \<noteq> 1))"
  by (cases r; simp add: send_ebpf_network_event_def send_pod_event_def send_service_event_def
      send_config_map_event_def send_service_pod_map_def send_k8s_resource_event_def
      send_envoy_routes_def Let_def ok_response_def k8s_event_type_try_from_def)

text \<open>After the initial snapshot the address of a pod resolves to the last entry that lists it,
  every other address as before, and no listed address is left in the graph as a raw-address
  node.\<close>

theorem snapshot_applied:
  assumes "cache_laws (pods_ops K)" and "core_reachable K to_json s"
    and "\<forall>e \<in> set entries. sp_application_name e \<noteq> [] \<and> sp_namespace e \<noteq> ''unknown''"
  defines "s' \<equiv> snd (send_service_pod_map K entries s)"
  shows "cache_get (pods_ops K) (pod_cache s') a =
      (case find (\<lambda>e. a \<in> set (sp_pod_ips e)) (rev entries) of
         None \<Rightarrow> cache_get (pods_ops K) (pod_cache s) a
       | Some e \<Rightarrow> Some \<lparr>pod_namespace = sp_namespace e, pod_application_name = sp_application_name e,
                        pod_service_name = sp_service_name e, pod_service_type = sp_service_type e\<rparr>) \<and>
    (\<forall>e \<in> set entries. \<forall>b \<in> set (sp_pod_ips e). stale_id_of b \<notin> node_set (inner (topo s')))"
proof -
  have "stale_id_of b \<notin> node_set (inner (topo s'))" if "e \<in> set entries" "b \<in> set (sp_pod_ips e)" for e b
    unfolding s'_def send_service_pod_map_def snd_conv snapshot_fold
    by (rule snapshot_heals) (use assms(2,3) that in \<open>auto simp: core_inv_reachable image_iff\<close>)
  then show ?thesis using snapshot_lookup [OF assms(1)] by (simp add: s'_def send_service_pod_map_def)
qed

theorem snapshot_applied_witness:
  "cache_get (pods_ops hash_caches) (pod_cache (snd (send_service_pod_map hash_caches
     [\<lparr>sp_service_name = ''a'', sp_namespace = ''default'', sp_service_type = ''ClusterIP'',
       sp_pod_ips = [''10.0.0.1''], sp_application_name = ''svc-a''\<rparr>,
      \<lparr>sp_service_name = ''b'', sp_namespace = ''prod'', sp_service_type = ''NodePort'',
       sp_pod_ips = [''10.0.0.1''], sp_application_name = ''svc-b''\<rparr>] (init_core hash_caches)))) ''10.0.0.1'' =
   Some \<lparr>pod_namespace = ''prod'', pod_application_name = ''svc-b'', pod_service_name = ''b'', pod_service_type = ''NodePort''\<rparr>"
  using snapshot_applied [of hash_caches "\<lambda>_. ''{}''" "init_core hash_caches"
     "[\<lparr>sp_service_name = ''a'', sp_namespace = ''default'', sp_service_type = ''ClusterIP'',
       sp_pod_ips = [''10.0.0.1''], sp_application_name = ''svc-a''\<rparr>,
      \<lparr>sp_service_name = ''b'', sp_namespace = ''prod'', sp_service_type = ''NodePort'',
       sp_pod_ips = [''10.0.0.1''], sp_application_name = ''svc-b''\<rparr>]" "''10.0.0.1''"]
  by (simp add: hash_cache_laws core_reachable.start)

text \<open>C23. Envoy routes decide the destination before anything else: after a route table is sent, a
  captured request whose host (without its port) is one of its domains is attributed to the
  service of the last entry for that domain, whatever the pod cache says of the address.\<close>

theorem envoy_routes_attribute:
  assumes "cache_laws (envoy_ops K)"
    and "find (\<lambda>e. er_domain e = before_char (CHR '':'') (in_host i)) (rev entries) = Some r"
    and "edge_of K i (snd (send_envoy_routes K entries s)) = Some (src, dst, key)"
  shows "dst = mk_node (er_service_name r) (er_namespace r)"
  using assms(3) routes_lookup [OF assms(1), where entries = entries and s = s] assms(2)
  by (auto simp: edge_of_def destination_of_def Let_def split: if_splits option.splits)

theorem envoy_routes_attribute_witness:
  "\<exists>src key. edge_of hash_caches call_a_b (snd (send_envoy_routes hash_caches
     [\<lparr>er_domain = ''whatever.example'', er_service_name = ''edge'', er_namespace = ''prod''\<rparr>] two_pods)) =
     Some (src, mk_node ''edge'' ''prod'', key)"
proof -
  let ?es = "[\<lparr>er_domain = ''whatever.example'', er_service_name = ''edge'', er_namespace = ''prod''\<rparr>]"
  have h: "before_char (CHR '':'') (in_host call_a_b) = ''whatever.example''" by code_simp
  have "\<not> str_contains (in_path call_a_b) ''/health''" by code_simp
  then have "edge_of hash_caches call_a_b (snd (send_envoy_routes hash_caches ?es two_pods)) \<noteq> None"
    by (simp add: edge_of_def call_a_b_addresses source_of_def two_pods_def send_envoy_routes_def Let_def
        case_prod_unfold)
  then obtain src dst key where e: "edge_of hash_caches call_a_b (snd (send_envoy_routes hash_caches ?es two_pods)) = Some (src, dst, key)"
    by auto
  show ?thesis
    using envoy_routes_attribute [OF _ _ e, of "hd ?es"] e by (simp add: hash_cache_laws h)
qed

end
