(* ===== verification/Query_Server.thy ===== *)
theory Query_Server
  imports Subgraph Grpc_Server
begin

text \<open>
  The read side of Core: the \<open>QubitQuery\<close> service of \<^verbatim>\<open>core/src/server/query.rs\<close>
  and the topology routes of \<^verbatim>\<open>core/src/server/handler.rs\<close>. Both turn the maps
  keyed by node into maps keyed by the string \<open>namespace/application\<close>; the
  properties say when nothing is lost on the way.
\<close>

section \<open>The gRPC query service\<close>

record topology_node =
  tn_application_name :: string
  tn_namespace :: string
  tn_ip :: string

record topology_edge =
  te_source_application :: string
  te_source_namespace :: string
  te_destination_application :: string
  te_destination_namespace :: string
  te_method :: string
  te_path :: string

record flow_list =
  fl_flows :: "topology_edge list"

record get_topology_response =
  gt_nodes :: "(string, topology_node) hash_map"
  gt_upstream :: "(string, flow_list) hash_map"
  gt_downstream :: "(string, flow_list) hash_map"

definition node_key :: "node_id \<Rightarrow> string" where
  "node_key n = namespace n @ ''/'' @ application_name n"

definition to_flow_list :: "flow list \<Rightarrow> flow_list" where
  "to_flow_list fs =
     \<lparr>fl_flows = map (\<lambda>f. \<lparr>te_source_application = application_name (source_node f),
                          te_source_namespace = namespace (source_node f),
                          te_destination_application = application_name (destination_node f),
                          te_destination_namespace = namespace (destination_node f),
                          te_method = flow_method f, te_path = flow_path f\<rparr>) fs\<rparr>"

text \<open>\<open>m.iter().map(|(id, v)| (node_key(id), g(id, v))).collect()\<close>\<close>

definition by_node_key :: "(node_id \<Rightarrow> 'v \<Rightarrow> 'w) \<Rightarrow> (node_id, 'v) hash_map \<Rightarrow> (string, 'w) hash_map" where
  "by_node_key g m = hm_collect (map (\<lambda>(id, v). (node_key id, g id v)) m)"

definition get_topology :: "topology rwlock \<Rightarrow> (get_topology_response, status) rust_result" where
  "get_topology l =
     (if poisoned l
      then Inl (Internal (''topology lock poisoned: '' @ ''poisoned lock: another task failed inside''))
      else
        let t = inner l in
        Inr \<lparr>gt_nodes = by_node_key (\<lambda>id d. \<lparr>tn_application_name = application_name id,
                           tn_namespace = namespace id, tn_ip = ip d\<rparr>) (nodes t),
             gt_upstream = by_node_key (\<lambda>_ fs. to_flow_list fs) (upstream t),
             gt_downstream = by_node_key (\<lambda>_ fs. to_flow_list fs) (downstream t)\<rparr>)"

section \<open>The HTTP routes\<close>

record node_dto =
  nd_application_name :: string
  nd_namespace :: string
  nd_ip :: string

record flow_dto =
  fd_source_application :: string
  fd_destination_application :: string
  fd_method :: string
  fd_path :: string

record http_flow_list =
  hf_flows :: "flow_dto list"

record topology_response =
  tr_nodes :: "(string, node_dto) hash_map"
  tr_upstream :: "(string, http_flow_list) hash_map"
  tr_downstream :: "(string, http_flow_list) hash_map"

definition to_node_dto :: "node_id \<Rightarrow> node_data \<Rightarrow> node_dto" where
  "to_node_dto n d = \<lparr>nd_application_name = application_name n, nd_namespace = namespace n, nd_ip = ip d\<rparr>"

definition to_http_flow_list :: "flow list \<Rightarrow> http_flow_list" where
  "to_http_flow_list fs =
     \<lparr>hf_flows = map (\<lambda>f. \<lparr>fd_source_application = application_name (source_node f),
                          fd_destination_application = application_name (destination_node f),
                          fd_method = flow_method f, fd_path = flow_path f\<rparr>) fs\<rparr>"

text \<open>\<open>topology.read().unwrap()\<close> panics on a poisoned lock: the answer is \<open>None\<close>.\<close>

definition topology_handler :: "topology rwlock \<Rightarrow> topology_response option" where
  "topology_handler l =
     (if poisoned l then None
      else
        let t = inner l in
        Some \<lparr>tr_nodes = by_node_key to_node_dto (nodes t),
              tr_upstream = by_node_key (\<lambda>_ fs. to_http_flow_list fs) (upstream t),
              tr_downstream = by_node_key (\<lambda>_ fs. to_http_flow_list fs) (downstream t)\<rparr>)"

record subgraph_params =
  pa_service :: string
  pa_namespace :: string
  pa_depth :: "u32 option"

definition topology_subgraph :: "topology rwlock \<Rightarrow> subgraph_params \<Rightarrow> topology_response option" where
  "topology_subgraph l params =
     (let depth = (case pa_depth params of None \<Rightarrow> 1 | Some d \<Rightarrow> d) in
      if poisoned l then None
      else
        let t = inner l;
            sg = get_subgraph t (pa_service params) (pa_namespace params) depth
        in Some \<lparr>tr_nodes = hm_collect (List.map_filter (\<lambda>id.
                     map_option (\<lambda>d. (node_key id, to_node_dto id d)) (hm_get (nodes t) id)) (sg_nodes sg)),
                 tr_upstream = by_node_key (\<lambda>_ fs. to_http_flow_list fs) (sg_upstream sg),
                 tr_downstream = by_node_key (\<lambda>_ fs. to_http_flow_list fs) (sg_downstream sg)\<rparr>)"

section \<open>Keys\<close>

text \<open>Kubernetes namespaces have no slash, and a set of nodes with such namespaces has distinct keys.
  The code does not enforce this: \<open>parse_k8s_host\<close> takes names and namespaces from the \<^verbatim>\<open>Host\<close> header
  as they stand (\<open>host_with_slash\<close> below). The exact condition for one node is that no other node
  of the map is printed the same way.\<close>

definition own_key :: "node_id set \<Rightarrow> node_id \<Rightarrow> bool" where
  "own_key S n \<longleftrightarrow> (\<forall>m \<in> S. node_key m = node_key n \<longrightarrow> m = n)"

definition slash_free :: "node_id set \<Rightarrow> bool" where
  "slash_free ids \<longleftrightarrow> (\<forall>id \<in> ids. CHR ''/'' \<notin> set (namespace id))"

text \<open>What a reader of the gRPC answer gets back from an edge.\<close>

definition flow_of_edge :: "topology_edge \<Rightarrow> flow" where
  "flow_of_edge e =
     \<lparr>source_node = mk_node (te_source_application e) (te_source_namespace e),
      destination_node = mk_node (te_destination_application e) (te_destination_namespace e),
      flow_path = te_path e, flow_method = te_method e\<rparr>"

lemma inj_node_key: "slash_free S \<Longrightarrow> inj_on node_key S"
proof (rule inj_onI)
  fix m n
  assume S: "slash_free S" "m \<in> S" "n \<in> S" and "node_key m = node_key n"
  then have "slash_key (namespace m) (application_name m) = slash_key (namespace n) (application_name n)"
    by (simp add: node_key_def slash_key_def)
  moreover have "CHR ''/'' \<notin> set (namespace m)" "CHR ''/'' \<notin> set (namespace n)"
    using S by (auto simp: slash_free_def)
  ultimately show "m = n" using slash_key_inj by (metis node_id.equality old.unit.exhaust)
qed

lemma slash_free_mono: "slash_free S \<Longrightarrow> T \<subseteq> S \<Longrightarrow> slash_free T"
  by (auto simp: slash_free_def)

lemma own_key_mono: "own_key S n \<Longrightarrow> T \<subseteq> S \<Longrightarrow> own_key T n"
  by (auto simp: own_key_def)

lemma slash_free_own_key: "slash_free (insert n S) \<Longrightarrow> own_key S n"
  using inj_node_key [of "insert n S"] by (auto simp: own_key_def inj_on_def)

text \<open>Two host names a request may carry, two services, one key.\<close>

lemma host_with_slash:
  "parse_k8s_host ''a.y/z.svc'' = (''a'', ''y/z'') \<and> parse_k8s_host ''z/a.y.svc'' = (''z/a'', ''y'') \<and>
   node_key (mk_node ''a'' ''y/z'') = node_key (mk_node ''z/a'' ''y'')"
  by code_simp

text \<open>A view keyed by strings answers for the key of a node what the map answers for the node; in any
  case each of its entries is that of a node with this key, and no key is missing.\<close>

lemma map_of_node_key:
  "own_key (fst ` set m) n \<Longrightarrow>
     map_of (map (\<lambda>(id, v). (node_key id, g id v)) m) (node_key n) = map_option (g n) (map_of m n)"
  by (induction m) (auto simp: own_key_def)

lemma get_by_node_key:
  assumes "hm_ok m" and "own_key (fst ` set m) n"
  shows "hm_get (by_node_key g m) (node_key n) = map_option (g n) (hm_get m n)"
proof -
  have "own_key (fst ` set (rev m)) n" using assms(2) by simp
  note map_of_node_key [OF this, of g]
  moreover have "map_of (rev m) = map_of m"
    using assms(1) by (simp add: map_of_inject_set rev_map [symmetric])
  ultimately show ?thesis by (simp add: by_node_key_def hm_get_collect rev_map)
qed

lemma by_node_key_entry:
  assumes "hm_ok m" and "hm_get (by_node_key g m) k = Some v"
  shows "\<exists>n d. node_key n = k \<and> hm_get m n = Some d \<and> v = g n d"
proof -
  have "(k, v) \<in> set (map (\<lambda>(id, v). (node_key id, g id v)) m)"
    using map_of_SomeD [of "rev (map (\<lambda>(id, v). (node_key id, g id v)) m)" k v] assms(2)
    by (simp add: by_node_key_def hm_get_collect)
  then obtain n d where "(n, d) \<in> set m" "node_key n = k" "v = g n d" by auto
  moreover have "hm_get m n = Some d" using assms(1) \<open>(n, d) \<in> set m\<close> by simp
  ultimately show ?thesis by blast
qed

lemma by_node_key_keys: "hm_get (by_node_key g m) k \<noteq> None \<longleftrightarrow> k \<in> node_key ` fst ` set m"
  by (simp add: by_node_key_def hm_get_collect map_of_eq_None_iff image_image case_prod_unfold)

lemma flow_of_edge_list: "map flow_of_edge (fl_flows (to_flow_list fs)) = fs"
  by (induction fs) (simp_all add: to_flow_list_def flow_of_edge_def)

section \<open>Sub-graph answers\<close>

lemma get_collect_filter:
  assumes "own_key (set ids) n"
  shows "hm_get (hm_collect (List.map_filter (\<lambda>i. map_option (\<lambda>d. (node_key i, g i d)) (hm_get m i)) ids)) (node_key n) =
    (if n \<in> set ids then map_option (g n) (hm_get m n) else None)"
proof -
  let ?f = "\<lambda>i. map_option (\<lambda>d. (node_key i, g i d)) (hm_get m i)"
  have key: "map_of (List.map_filter ?f ns) (node_key n) = (if n \<in> set ns then map_option (g n) (hm_get m n) else None)"
    if "own_key (set ns) n" for ns
    using that
  proof (induction ns)
    case Nil
    then show ?case by (simp add: List.map_filter_def)
  next
    case (Cons i ns)
    have "node_key i = node_key n \<longleftrightarrow> i = n" using Cons.prems by (auto simp: own_key_def)
    moreover have "own_key (set ns) n" using Cons.prems by (rule own_key_mono) auto
    ultimately show ?case using Cons.IH by (cases "hm_get m i") (auto simp: List.map_filter_def)
  qed
  have "rev (List.map_filter ?f ids) = List.map_filter ?f (rev ids)"
    by (simp add: List.map_filter_def rev_map rev_filter)
  then show ?thesis using key [of "rev ids"] assms by (simp add: hm_get_collect)
qed

lemma collect_filter_entry:
  assumes "hm_get (hm_collect (List.map_filter (\<lambda>i. map_option (\<lambda>d. (node_key i, g i d)) (hm_get m i)) ids)) k = Some v"
  shows "\<exists>n \<in> set ids. \<exists>d. node_key n = k \<and> hm_get m n = Some d \<and> v = g n d"
  using assms map_of_SomeD by (force simp: hm_get_collect List.map_filter_def)

lemma collect_filter_keys:
  assumes "n \<in> set ids" and "hm_get m n \<noteq> None"
  shows "hm_get (hm_collect (List.map_filter (\<lambda>i. map_option (\<lambda>d. (node_key i, g i d)) (hm_get m i)) ids)) (node_key n) \<noteq> None"
proof -
  obtain d where "hm_get m n = Some d" using assms(2) by blast
  then have "(node_key n, g n d) \<in> set (rev (List.map_filter (\<lambda>i. map_option (\<lambda>d. (node_key i, g i d)) (hm_get m i)) ids))"
    using assms(1) by (force simp: List.map_filter_def)
  then have "node_key n \<in> fst ` set (rev (List.map_filter (\<lambda>i. map_option (\<lambda>d. (node_key i, g i d)) (hm_get m i)) ids))"
    by (rule image_eqI [rotated]) simp
  then show ?thesis unfolding hm_get_collect map_of_eq_None_iff by simp
qed

lemma hm_ok_root_flows [simp]: "hm_ok (root_flows root m)"
  by (simp add: root_flows_def split: option.split)

lemma add_tree_flows_ok:
  assumes "hm_ok (fst vs)" "hm_ok (snd vs)" "fst ` set (fst vs) \<subseteq> S" "fst ` set (snd vs) \<subseteq> S" "n \<in> S"
  shows "hm_ok (fst (add_tree_flows t root E n vs))" "hm_ok (snd (add_tree_flows t root E n vs))"
    "fst ` set (fst (add_tree_flows t root E n vs)) \<subseteq> S" "fst ` set (snd (add_tree_flows t root E n vs)) \<subseteq> S"
  using assms by (cases vs; simp add: add_tree_flows_def Let_def hm_keys_insert)+

lemma fold_add_tree_flows_ok:
  fixes t :: topology and root :: node_id and E :: "(node_id \<times> node_id) hash_set"
  assumes "hm_ok (fst vs)" "hm_ok (snd vs)" "fst ` set (fst vs) \<subseteq> S" "fst ` set (snd vs) \<subseteq> S" "set ns \<subseteq> S"
  defines "r \<equiv> fold (add_tree_flows t root E) ns vs"
  shows "hm_ok (fst r) \<and> hm_ok (snd r) \<and> fst ` set (fst r) \<subseteq> S \<and> fst ` set (snd r) \<subseteq> S"
  using assms unfolding r_def
  by (induction ns arbitrary: vs) (simp_all add: add_tree_flows_ok)

lemma root_flows_keys: "fst ` set (root_flows root m) \<subseteq> {root}"
  by (auto simp: root_flows_def split: option.splits)

lemma subgraph_maps_ok:
  fixes t app ns depth
  defines "sg \<equiv> get_subgraph t app ns depth"
  shows "hm_ok (sg_upstream sg) \<and> hm_ok (sg_downstream sg) \<and>
    fst ` set (sg_upstream sg) \<subseteq> set (sg_nodes sg) \<and> fst ` set (sg_downstream sg) \<subseteq> set (sg_nodes sg)"
proof (cases "mk_node app ns \<in> node_set t")
  case False
  then show ?thesis by (simp add: sg_def get_subgraph_def node_set_def)
next
  case True
  let ?root = "mk_node app ns"
  obtain V E where b: "bfs t ?root depth = (V, E)" by (metis surj_pair)
  let ?vs = "(root_flows ?root (upstream t), root_flows ?root (downstream t))"
  let ?r = "fold (add_tree_flows t ?root E) V ?vs"
  have rV: "?root \<in> set V" using bfs_correct(2) [OF b] by (simp add: search_tree_def)
  have "fst ` set (fst ?vs) \<subseteq> set V" "fst ` set (snd ?vs) \<subseteq> set V"
    using rV root_flows_keys by fastforce+
  then have r: "hm_ok (fst ?r) \<and> hm_ok (snd ?r) \<and> fst ` set (fst ?r) \<subseteq> set V \<and> fst ` set (snd ?r) \<subseteq> set V"
    by (intro fold_add_tree_flows_ok) simp_all
  have "sg_upstream sg = fst ?r" "sg_downstream sg = snd ?r"
    using True b by (simp_all add: sg_def get_subgraph_def node_set_def Let_def split: prod.split)
  moreover have "set V \<subseteq> set (sg_nodes sg)" by (simp add: sg_def get_subgraph_fields(1) [OF True b])
  ultimately show ?thesis using r by auto
qed

lemma calls_node_set:
  assumes "topo_inv t" and "(m, n) \<in> calls t"
  shows "m \<in> node_set t \<and> n \<in> node_set t"
proof -
  obtain f where "f \<in> flow_set t" "source_node f = m" "destination_node f = n"
    using assms calls_flow_set [OF topo_inv_mirrored [OF assms(1)]] by auto
  then show ?thesis using topo.flows_in_nodes [OF assms(1)] by blast
qed

lemma subgraph_nodes_known:
  assumes "topo_inv t"
  shows "set (sg_nodes (get_subgraph t app ns depth)) \<subseteq> node_set t"
proof -
  have "n \<in> node_set t" if "(mk_node app ns, n) \<in> calls t ^^ i" "mk_node app ns \<in> node_set t" for i n
    using that by (cases i) (auto dest: calls_node_set [OF assms])
  moreover have "source_node f \<in> node_set t" if "f \<in> set (hm_vec (upstream t) (mk_node app ns))" for f
    using that mirrored_vec_sets [OF topo_inv_mirrored [OF assms]] topo.flows_in_nodes [OF assms] by blast
  ultimately show ?thesis by (auto simp: set_sg_nodes)
qed

section \<open>A sample run\<close>

text \<open>The snapshot of two pods arrives, then a captured call, whose task runs.\<close>

lemma sample_reachable:
  "core_reachable hash_caches to_json (snd (record_ebpf_event hash_caches call_a_b two_pods))"
proof -
  let ?req = "\<lparr>rq_timestamp_ns = 1, rq_src_ip = 0x0100000A, rq_dst_ip = 0x0200000A, rq_src_port = 4000,
     rq_dst_port = 80, rq_method = ''GET'', rq_path = ''/api'', rq_host = ''whatever.example:80''\<rparr>"
  let ?s = "snd (handle_rpc hash_caches to_json undefined (SendEbpfNetworkEvent ?req) two_pods)"
  have s: "?s = two_pods\<lparr>spawned := [RecordEbpf call_a_b]\<rparr>"
    by (simp add: send_ebpf_network_event_def call_a_b_def two_pods_def init_core_def)
  have "core_reachable hash_caches to_json ?s"
    using two_pods_reachable core_step.request by (rule core_reachable.step)
  moreover have "core_step hash_caches to_json ?s
      (snd (record_ebpf_event hash_caches call_a_b (?s\<lparr>spawned := [] @ []\<rparr>)))"
    by (rule core_step.record_event) (simp only: s; simp)
  moreover have "?s\<lparr>spawned := [] @ []\<rparr> = two_pods" by (simp only: s) (simp add: two_pods_def init_core_def)
  ultimately show ?thesis by (metis core_reachable.step)
qed

lemma sample_topology:
  "topo (snd (record_ebpf_event hash_caches call_a_b two_pods)) =
     new_lock (record_call call_a_b (mk_node ''svc-a'' ''default'') (mk_node ''svc-b'' ''default'') new_topology)"
  by (simp add: record_state call_a_b_edge Let_def new_lock_def lock_set_def)

lemma sample_graph:
  "record_call call_a_b (mk_node ''svc-a'' ''default'') (mk_node ''svc-b'' ''default'') new_topology =
     \<lparr>nodes = [(mk_node ''svc-a'' ''default'', node_data_of_ip ''10.0.0.1''),
              (mk_node ''svc-b'' ''default'', node_data_of_ip ''10.0.0.2'')],
      upstream = [(mk_node ''svc-b'' ''default'', [(test_flow ''svc-a'' ''default'' ''svc-b'' ''default'')\<lparr>flow_path := ''/api''\<rparr>])],
      downstream = [(mk_node ''svc-a'' ''default'', [(test_flow ''svc-a'' ''default'' ''svc-b'' ''default'')\<lparr>flow_path := ''/api''\<rparr>])]\<rparr>"
  by (simp add: record_call_def Let_def call_a_b_addresses add_node_def add_flow_def push_new_def hm_modify_def
      hm_or_insert_def new_topology_def call_a_b_def [THEN arg_cong [where f = in_path]] 
      call_a_b_def [THEN arg_cong [where f = in_method]] test_flow_def)

section \<open>Properties\<close>

text \<open>C24. In every reachable state \<open>GetTopology\<close> answers. Its nodes are those of the graph: every entry is
  the data of a service of the graph filed under that service's key, and the key of every service
  has an entry. For every service (and every other name) whose key is not also that of another service of the graph the
  answer is exact: its key leads to its own data, and the edges filed under it decode to exactly
  the flows the topology files under it. Where no namespace contains a slash the keys are all
  different; the code does not check that, and of two services with one key one is lost.\<close>

theorem query_topology_faithful:
  assumes "core_reachable K to_json s"
  defines "t \<equiv> inner (topo s)"
  shows "\<exists>resp. get_topology (topo s) = Inr resp \<and>
    (\<forall>k e. hm_get (gt_nodes resp) k = Some e \<longrightarrow> (\<exists>m d. node_key m = k \<and> hm_get (nodes t) m = Some d \<and>
       e = \<lparr>tn_application_name = application_name m, tn_namespace = namespace m, tn_ip = ip d\<rparr>)) \<and>
    (\<forall>m \<in> node_set t. hm_get (gt_nodes resp) (node_key m) \<noteq> None) \<and>
    (\<forall>n. own_key (node_set t \<union> fst ` set (upstream t) \<union> fst ` set (downstream t)) n \<longrightarrow>
       hm_get (gt_nodes resp) (node_key n) = map_option (\<lambda>d. \<lparr>tn_application_name = application_name n,
         tn_namespace = namespace n, tn_ip = ip d\<rparr>) (hm_get (nodes t) n) \<and>
       map_option (map flow_of_edge \<circ> fl_flows) (hm_get (gt_upstream resp) (node_key n)) = hm_get (upstream t) n \<and>
       map_option (map flow_of_edge \<circ> fl_flows) (hm_get (gt_downstream resp) (node_key n)) = hm_get (downstream t) n)"
proof -
  have inv: "core_inv s" using assms(1) by (rule core_inv_reachable)
  then have ok: "hm_ok (nodes t)" "hm_ok (upstream t)" "hm_ok (downstream t)"
    by (simp_all add: core_inv_def topo_inv_def mirrored_def t_def)
  have dec: "map_option (map flow_of_edge \<circ> fl_flows) (map_option to_flow_list x) = x" for x
    by (cases x) (simp_all add: flow_of_edge_list)
  have own: "own_key (fst ` set (nodes t)) n" "own_key (fst ` set (upstream t)) n" "own_key (fst ` set (downstream t)) n"
    if "own_key (node_set t \<union> fst ` set (upstream t) \<union> fst ` set (downstream t)) n" for n
    using that by (auto simp: own_key_def node_set_def)
  define resp where "resp = \<lparr>gt_nodes = by_node_key (\<lambda>id d. \<lparr>tn_application_name = application_name id,
         tn_namespace = namespace id, tn_ip = ip d\<rparr>) (nodes t),
       gt_upstream = by_node_key (\<lambda>_ fs. to_flow_list fs) (upstream t),
       gt_downstream = by_node_key (\<lambda>_ fs. to_flow_list fs) (downstream t)\<rparr>"
  have resp: "get_topology (topo s) = Inr resp"
    using inv by (simp add: get_topology_def core_inv_def Let_def t_def resp_def)
  have entries: "\<exists>m d. node_key m = k \<and> hm_get (nodes t) m = Some d \<and>
      e = \<lparr>tn_application_name = application_name m, tn_namespace = namespace m, tn_ip = ip d\<rparr>"
    if "hm_get (gt_nodes resp) k = Some e" for k e
    using that unfolding resp_def get_topology_response.simps by (rule by_node_key_entry [OF ok(1)])
  have keys: "hm_get (gt_nodes resp) (node_key m) \<noteq> None" if "m \<in> node_set t" for m
    using that unfolding resp_def get_topology_response.simps by_node_key_keys node_set_def by simp
  show ?thesis
    using own by (intro exI [of _ resp] conjI allI ballI impI resp entries keys)
      (simp_all add: resp_def get_by_node_key ok dec)
qed

theorem query_topology_faithful_witness:
  "\<exists>resp. get_topology (topo (snd (record_ebpf_event hash_caches call_a_b two_pods))) = Inr resp \<and>
     hm_get (gt_nodes resp) ''default/svc-b'' =
       Some \<lparr>tn_application_name = ''svc-b'', tn_namespace = ''default'', tn_ip = ''10.0.0.2''\<rparr>"
proof -
  let ?t = "record_call call_a_b (mk_node ''svc-a'' ''default'') (mk_node ''svc-b'' ''default'') new_topology"
  have "slash_free (insert (mk_node ''svc-b'' ''default'') (node_set ?t \<union> fst ` set (upstream ?t) \<union> fst ` set (downstream ?t)))"
    by (simp add: sample_graph slash_free_def node_set_def)
  from slash_free_own_key [OF this] show ?thesis
    using query_topology_faithful [OF sample_reachable]
    by (fastforce simp: sample_topology sample_graph node_key_def node_data_of_ip_def)
qed

text \<open>C25. In every reachable state the sub-graph route answers, with depth 1 unless the request gives
  one. Every entry is the data of a service reachable from the root by at most that many calls or
  calling the root, filed under that service's key, and the key of each such service has an entry.
  For every name whose key is not also that of another service of the graph the answer is exact:
  it is shown if and only if it is such a service, with its own data, and the flows under its key
  are those of the sub-graph. (Two services share a key only if a namespace contains a slash, as
  a \<^verbatim>\<open>Host\<close> header may give; then one of them is lost.)\<close>

theorem http_subgraph_faithful:
  fixes params :: subgraph_params
  assumes "core_reachable K to_json s"
  defines "t \<equiv> inner (topo s)" and "root \<equiv> mk_node (pa_service params) (pa_namespace params)"
    and "depth \<equiv> (case pa_depth params of None \<Rightarrow> 1 | Some d \<Rightarrow> d)"
  defines "sg \<equiv> get_subgraph t (pa_service params) (pa_namespace params) depth"
    and "shown \<equiv> {n. root \<in> node_set t \<and> ((\<exists>i \<le> unat depth. (root, n) \<in> calls t ^^ i) \<or>
           (\<exists>f \<in> flow_set t. source_node f = n \<and> destination_node f = root))}"
  shows "\<exists>r. topology_subgraph (topo s) params = Some r \<and>
    (\<forall>k e. hm_get (tr_nodes r) k = Some e \<longrightarrow>
       (\<exists>m \<in> shown. \<exists>d. node_key m = k \<and> hm_get (nodes t) m = Some d \<and> e = to_node_dto m d)) \<and>
    (\<forall>m \<in> shown. hm_get (tr_nodes r) (node_key m) \<noteq> None) \<and>
    (\<forall>n. own_key (node_set t) n \<longrightarrow>
       hm_get (tr_nodes r) (node_key n) = (if n \<in> shown then map_option (to_node_dto n) (hm_get (nodes t) n) else None) \<and>
       hm_get (tr_upstream r) (node_key n) = map_option to_http_flow_list (hm_get (sg_upstream sg) n) \<and>
       hm_get (tr_downstream r) (node_key n) = map_option to_http_flow_list (hm_get (sg_downstream sg) n))"
proof -
  have inv: "core_inv s" using assms(1) by (rule core_inv_reachable)
  then have t: "topo_inv t" by (simp add: core_inv_def t_def)
  have known: "set (sg_nodes sg) \<subseteq> node_set t" unfolding sg_def by (rule subgraph_nodes_known [OF t])
  have maps: "hm_ok (sg_upstream sg)" "hm_ok (sg_downstream sg)"
    "fst ` set (sg_upstream sg) \<subseteq> set (sg_nodes sg)" "fst ` set (sg_downstream sg) \<subseteq> set (sg_nodes sg)"
    unfolding sg_def using subgraph_maps_ok by blast+
  have own: "own_key (set (sg_nodes sg)) n" "own_key (fst ` set (sg_upstream sg)) n" "own_key (fst ` set (sg_downstream sg)) n"
    if "own_key (node_set t) n" for n
    using own_key_mono [OF that] known maps(3,4) by (meson order_trans)+
  have shown: "shown = set (sg_nodes sg)"
    by (auto simp: shown_def sg_def set_sg_nodes root_def mirrored_vec_sets [OF topo_inv_mirrored [OF t]])
  have data: "hm_get (nodes t) n \<noteq> None" if "n \<in> set (sg_nodes sg)" for n
    using that known hm_contains_get [of n "nodes t"] by (auto simp: node_set_def)
  have "\<not> poisoned (topo s)" using inv by (simp add: core_inv_def)
  moreover define r where "r = \<lparr>tr_nodes = hm_collect (List.map_filter (\<lambda>id.
          map_option (\<lambda>d. (node_key id, to_node_dto id d)) (hm_get (nodes t) id)) (sg_nodes sg)),
       tr_upstream = by_node_key (\<lambda>_ fs. to_http_flow_list fs) (sg_upstream sg),
       tr_downstream = by_node_key (\<lambda>_ fs. to_http_flow_list fs) (sg_downstream sg)\<rparr>"
  ultimately have answer: "topology_subgraph (topo s) params = Some r"
    by (simp add: topology_subgraph_def Let_def t_def depth_def sg_def)
  have exact: "hm_get (tr_nodes r) (node_key n) = (if n \<in> shown then map_option (to_node_dto n) (hm_get (nodes t) n) else None)"
    "hm_get (tr_upstream r) (node_key n) = map_option to_http_flow_list (hm_get (sg_upstream sg) n)"
    "hm_get (tr_downstream r) (node_key n) = map_option to_http_flow_list (hm_get (sg_downstream sg) n)"
    if "own_key (node_set t) n" for n
    unfolding r_def shown using own [OF that] by (simp_all add: get_collect_filter get_by_node_key maps(1,2))
  have entries: "\<exists>m \<in> shown. \<exists>d. node_key m = k \<and> hm_get (nodes t) m = Some d \<and> e = to_node_dto m d"
    if "hm_get (tr_nodes r) k = Some e" for k e
    using that unfolding r_def topology_response.simps shown by (rule collect_filter_entry)
  have keys: "hm_get (tr_nodes r) (node_key m) \<noteq> None" if "m \<in> shown" for m
    using collect_filter_keys [OF _ data] that unfolding r_def topology_response.simps shown by simp
  show ?thesis using exact by (intro exI [of _ r] conjI allI ballI impI answer entries keys)
qed

theorem http_subgraph_faithful_witness:
  "\<exists>r. topology_subgraph (topo (snd (record_ebpf_event hash_caches call_a_b two_pods)))
       \<lparr>pa_service = ''svc-a'', pa_namespace = ''default'', pa_depth = None\<rparr> = Some r \<and>
     hm_get (tr_nodes r) ''default/svc-b'' \<noteq> None"
proof -
  let ?s = "snd (record_ebpf_event hash_caches call_a_b two_pods)"
  let ?a = "mk_node ''svc-a'' ''default''"
  let ?b = "mk_node ''svc-b'' ''default''"
  let ?params = "\<lparr>pa_service = ''svc-a'', pa_namespace = ''default'', pa_depth = None\<rparr>"
  have "(?a, ?b) \<in> calls (inner (topo ?s)) ^^ 1"
    unfolding sample_topology new_lock_def rwlock.simps sample_graph by (simp add: calls_def test_flow_def)
  then have near: "\<exists>i \<le> unat (1 :: u32). (?a, ?b) \<in> calls (inner (topo ?s)) ^^ i" by (intro exI [of _ 1]) simp
  have root: "?a \<in> node_set (inner (topo ?s))" by (simp add: sample_topology sample_graph node_set_def)
  have "\<exists>r. topology_subgraph (topo ?s) ?params = Some r \<and>
      (\<forall>m. ?a \<in> node_set (inner (topo ?s)) \<longrightarrow> (\<exists>i \<le> unat (1 :: u32). (?a, m) \<in> calls (inner (topo ?s)) ^^ i) \<longrightarrow>
         hm_get (tr_nodes r) (node_key m) \<noteq> None)"
    using http_subgraph_faithful [OF sample_reachable, of ?params]
    unfolding subgraph_params.simps option.case by (elim exE conjE) blast
  then obtain r where "topology_subgraph (topo ?s) ?params = Some r" and "hm_get (tr_nodes r) (node_key ?b) \<noteq> None"
    using root near by blast
  then show ?thesis by (intro exI [of _ r]) (simp add: node_key_def)
qed

end
