(* ===== verification/Dao.thy ===== *)
theory Dao
  imports Ebpf_Aggregator
begin

text \<open>
  The persistence layer, \<^verbatim>\<open>core/src/dao/db.rs\<close>, with the flush of the topology
  that \<^verbatim>\<open>core/src/aggregator/ebpf_aggregator.rs\<close> runs on a timer and the paginated
  HTTP routes of \<^verbatim>\<open>core/src/server/handler.rs\<close> that read the tables back. The
  ClickHouse client is not part of the repository: its calls are parameters,
  records of functions over an abstract database, and \<open>clickhouse_laws\<close> states
  what the two calls the flush depends on are documented to do.
\<close>

section \<open>The ClickHouse client\<close>

text \<open>\<open>Client::insert(table)\<close>, \<open>Insert::write(row)\<close> and \<open>Insert::end()\<close>.\<close>

record ('r, 'd, 'i) inserter =
  ins_open :: "string \<Rightarrow> 'd \<Rightarrow> ('i, string) rust_result"
  ins_write :: "'r \<Rightarrow> 'i \<Rightarrow> ('i, string) rust_result"
  ins_end :: "'i \<Rightarrow> 'd \<Rightarrow> (unit, string) rust_result \<times> 'd"

type_synonym row_key = "string \<times> string \<times> string \<times> u16"

text \<open>\<open>query(sql).execute()\<close>, \<open>.fetch_one::<CountRow>()\<close> and \<open>.fetch_all::<R>()\<close> at the row types used.\<close>

record ('d, 'i, 'j) clickhouse =
  ch_execute :: "string \<Rightarrow> 'd \<Rightarrow> (unit, string) rust_result \<times> 'd"
  ch_edge_keys :: "string \<Rightarrow> 'd \<Rightarrow> (row_key list, string) rust_result"
  ch_count :: "string \<Rightarrow> 'd \<Rightarrow> (u64, string) rust_result"
  ch_ebpf_rows :: "string \<Rightarrow> 'd \<Rightarrow> (ebpf_network_event list, string) rust_result"
  ch_k8s_rows :: "string \<Rightarrow> 'd \<Rightarrow> (k8s_resource_event list, string) rust_result"
  ch_insert_ebpf :: "(ebpf_network_event, 'd, 'i) inserter"
  ch_insert_k8s :: "(k8s_resource_event, 'd, 'j) inserter"

record table_config =
  ebpf_network_events :: string
  k8s_resource_events :: string

section \<open>Schema\<close>

definition nl :: string where
  "nl = [CHR 0x0A]"

definition ebpf_create_table_schema :: string where
  "ebpf_create_table_schema = str_join nl
     ['''', ''        timestamp_ns UInt64,'', ''        src_service String,'', ''        src_namespace String,'',
      ''        src_application String,'', ''        dst_service String,'', ''        dst_namespace String,'',
      ''        dst_application String,'', ''        src_port UInt16,'', ''        dst_port UInt16,'',
      ''        method String,'', ''        path String,'', ''        host String'', ''    '']"

definition k8s_create_table_schema :: string where
  "k8s_create_table_schema = str_join nl
     ['''', ''        event_time DateTime DEFAULT now(),'', ''        resource_type String,'', ''        name String,'',
      ''        namespace String,'', ''        event_type String,'', ''        labels String,'',
      ''        resource_data String'', ''    '']"

text \<open>The three statements \<open>initialize_schema\<close> sends, in order.\<close>

definition schema_statements :: "table_config \<Rightarrow> string list" where
  "schema_statements cfg =
     [str_join nl
        [''CREATE TABLE IF NOT EXISTS '' @ ebpf_network_events cfg @ '' ('' @ ebpf_create_table_schema @ '')'',
         ''            ENGINE = MergeTree()'',
         ''            ORDER BY (timestamp_ns, src_service, dst_service)'',
         ''            TTL toDateTime(intDiv(timestamp_ns, 1000000000)) + INTERVAL 7 DAY''],
      ''ALTER TABLE '' @ ebpf_network_events cfg @
        '' MODIFY TTL toDateTime(intDiv(timestamp_ns, 1000000000)) + INTERVAL 7 DAY'',
      str_join nl
        [''CREATE TABLE IF NOT EXISTS '' @ k8s_resource_events cfg @ '' ('' @ k8s_create_table_schema @ '')'',
         ''            ENGINE = MergeTree()'',
         ''            ORDER BY (event_time, namespace, resource_type)'',
         ''            TTL event_time + INTERVAL 1 DAY'']]"

text \<open>Statements run one after the other, the first failure ends the sequence.\<close>

fun run_statements :: "(string \<Rightarrow> 'd \<Rightarrow> (unit, string) rust_result \<times> 'd) \<Rightarrow> string list \<Rightarrow> 'd
    \<Rightarrow> (unit, core_error) rust_result \<times> 'd" where
  "run_statements ex [] d = (Inr (), d)"
| "run_statements ex (q # qs) d =
     (case ex q d of
        (Inl e, d') \<Rightarrow> (Inl (SchemaInitializationFailed e), d')
      | (Inr _, d') \<Rightarrow> run_statements ex qs d')"

definition initialize_schema :: "('d, 'i, 'j) clickhouse \<Rightarrow> table_config \<Rightarrow> 'd \<Rightarrow> (unit, core_error) rust_result \<times> 'd" where
  "initialize_schema C cfg d = run_statements (ch_execute C) (schema_statements cfg) d"

section \<open>Inserts\<close>

fun write_all :: "('r, 'd, 'i) inserter \<Rightarrow> 'r list \<Rightarrow> 'i \<Rightarrow> ('i, string) rust_result" where
  "write_all I [] h = Inr h"
| "write_all I (r # rs) h = (case ins_write I r h of Inl e \<Rightarrow> Inl e | Inr h' \<Rightarrow> write_all I rs h')"

text \<open>Open an insert, write the rows, end it; an insert that is not ended has no effect.\<close>

definition insert_rows :: "('r, 'd, 'i) inserter \<Rightarrow> string \<Rightarrow> 'r list \<Rightarrow> 'd \<Rightarrow> (unit, core_error) rust_result \<times> 'd" where
  "insert_rows I table rows d =
     (case ins_open I table d of
        Inl e \<Rightarrow> (Inl (EventAdditionFailed e), d)
      | Inr h \<Rightarrow>
          (case write_all I rows h of
             Inl e \<Rightarrow> (Inl (EventAdditionFailed e), d)
           | Inr h' \<Rightarrow>
               (case ins_end I h' d of
                  (Inl e, d') \<Rightarrow> (Inl (EventAdditionFailed e), d')
                | (Inr _, d') \<Rightarrow> (Inr (), d'))))"

definition add_event :: "('d, 'i, 'j) clickhouse \<Rightarrow> table_config \<Rightarrow> ebpf_network_event \<Rightarrow> 'd
    \<Rightarrow> (unit, core_error) rust_result \<times> 'd" where
  "add_event C cfg ev d = insert_rows (ch_insert_ebpf C) (ebpf_network_events cfg) [ev] d"

definition add_k8s_resource_event :: "('d, 'i, 'j) clickhouse \<Rightarrow> table_config \<Rightarrow> k8s_resource_event \<Rightarrow> 'd
    \<Rightarrow> (unit, core_error) rust_result \<times> 'd" where
  "add_k8s_resource_event C cfg ev d = insert_rows (ch_insert_k8s C) (k8s_resource_events cfg) [ev] d"

definition row_key_of :: "ebpf_network_event \<Rightarrow> row_key" where
  "row_key_of e = (src_application e, dst_application e, ev_path e, ev_dst_port e)"

definition edge_keys_sql :: "table_config \<Rightarrow> string" where
  "edge_keys_sql cfg = ''SELECT DISTINCT src_application, dst_application, path, dst_port FROM '' @ ebpf_network_events cfg"

definition add_events :: "('d, 'i, 'j) clickhouse \<Rightarrow> table_config \<Rightarrow> ebpf_network_event list \<Rightarrow> 'd
    \<Rightarrow> (unit, core_error) rust_result \<times> 'd" where
  "add_events C cfg events d =
     (if events = [] then (Inr (), d)
      else
        (case ch_edge_keys C (edge_keys_sql cfg) d of
           Inl e \<Rightarrow> (Inl (EventFetchingFailed e), d)
         | Inr existing \<Rightarrow>
             let new_events = filter (\<lambda>e. row_key_of e \<notin> set existing) events in
             if new_events = [] then (Inr (), d)
             else insert_rows (ch_insert_ebpf C) (ebpf_network_events cfg) new_events d))"

text \<open>One turn of the loop of \<open>start_flush_timer\<close>: failures are logged and dropped.\<close>

definition flush_tick :: "('d, 'i, 'j) clickhouse \<Rightarrow> table_config \<Rightarrow> u64 \<Rightarrow> topology rwlock \<Rightarrow> 'd \<Rightarrow> 'd" where
  "flush_tick C cfg now_ns l d =
     (if poisoned l then d
      else
        let events = flush_rows now_ns (inner l) in
        if events = [] then d else snd (add_events C cfg events d))"

section \<open>Queries\<close>

definition count_sql :: "string \<Rightarrow> string" where
  "count_sql table = ''SELECT count() AS c FROM '' @ table"

definition page_sql :: "string \<Rightarrow> string \<Rightarrow> u64 \<Rightarrow> u64 \<Rightarrow> string" where
  "page_sql table order page_size offset =
     ''SELECT * FROM '' @ table @ '' ORDER BY '' @ order @ '' DESC LIMIT '' @ nat_str (unat page_size) @
     '' OFFSET '' @ nat_str (unat offset)"

text \<open>The offset is a 64-bit product; the release build wraps around.\<close>

definition get_k8s_events_paginated :: "('d, 'i, 'j) clickhouse \<Rightarrow> table_config \<Rightarrow> u64 \<Rightarrow> u64 \<Rightarrow> 'd
    \<Rightarrow> (k8s_resource_event list \<times> u64, core_error) rust_result" where
  "get_k8s_events_paginated C cfg page page_size d =
     (let offset = page * page_size in
      case ch_count C (count_sql (k8s_resource_events cfg)) d of
        Inl e \<Rightarrow> Inl (EventFetchingFailed e)
      | Inr tot \<Rightarrow>
          (case ch_k8s_rows C (page_sql (k8s_resource_events cfg) ''event_time'' page_size offset) d of
             Inl e \<Rightarrow> Inl (EventFetchingFailed e)
           | Inr its \<Rightarrow> Inr (its, tot)))"

definition get_network_events_paginated :: "('d, 'i, 'j) clickhouse \<Rightarrow> table_config \<Rightarrow> u64 \<Rightarrow> u64 \<Rightarrow> 'd
    \<Rightarrow> (ebpf_network_event list \<times> u64, core_error) rust_result" where
  "get_network_events_paginated C cfg page page_size d =
     (let offset = page * page_size in
      case ch_count C (count_sql (ebpf_network_events cfg)) d of
        Inl e \<Rightarrow> Inl (EventFetchingFailed e)
      | Inr tot \<Rightarrow>
          (case ch_ebpf_rows C (page_sql (ebpf_network_events cfg) ''timestamp_ns'' page_size offset) d of
             Inl e \<Rightarrow> Inl (EventFetchingFailed e)
           | Inr its \<Rightarrow> Inr (its, tot)))"

definition fetch_events_by_service :: "('d, 'i, 'j) clickhouse \<Rightarrow> table_config \<Rightarrow> string \<Rightarrow> 'd
    \<Rightarrow> (ebpf_network_event list, core_error) rust_result" where
  "fetch_events_by_service C cfg service_name d =
     (case ch_ebpf_rows C (''SELECT * FROM '' @ ebpf_network_events cfg @ '' WHERE src_service = '' @
             [CHR 0x27] @ service_name @ [CHR 0x27]) d of
        Inl e \<Rightarrow> Inl (EventFetchingFailed e) | Inr rows \<Rightarrow> Inr rows)"

definition get_ebpf_events_in_range :: "('d, 'i, 'j) clickhouse \<Rightarrow> table_config \<Rightarrow> u64 \<Rightarrow> u64 \<Rightarrow> 'd
    \<Rightarrow> (ebpf_network_event list, core_error) rust_result" where
  "get_ebpf_events_in_range C cfg start_time end_time d =
     (case ch_ebpf_rows C (''SELECT * FROM '' @ ebpf_network_events cfg @ '' WHERE timestamp_ns >= '' @
             nat_str (unat start_time) @ '' AND timestamp_ns <= '' @ nat_str (unat end_time)) d of
        Inl e \<Rightarrow> Inl (EventFetchingFailed e) | Inr rows \<Rightarrow> Inr rows)"

section \<open>The paginated routes\<close>

record pagination_params =
  pp_page :: "u64 option"
  pp_page_size :: "u64 option"

record 'a paged_response =
  pr_items :: "'a list"
  pr_total :: u64
  pr_page :: u64
  pr_page_size :: u64

datatype 'a http_reply = Ok_200 "'a paged_response" | Internal_500 string

fun error_string :: "core_error \<Rightarrow> string" where
  "error_string (SchemaInitializationFailed e) = ''Failed to initialize ClickHouse schema: '' @ e"
| "error_string (EventAdditionFailed e) = ''Failed to add event: '' @ e"
| "error_string (EventFetchingFailed e) = ''Failed to fetch events: '' @ e"
| "error_string (EbpfEventRecordingFailed e) = ''Failed to record ebpf event: '' @ e"
| "error_string (EnvoyRequestFailed e) = ''Envoy admin API request failed: '' @ e"

definition k8s_events_handler :: "('d, 'i, 'j) clickhouse \<Rightarrow> table_config \<Rightarrow> pagination_params \<Rightarrow> 'd
    \<Rightarrow> k8s_resource_event http_reply" where
  "k8s_events_handler C cfg params d =
     (let pg = (case pp_page params of None \<Rightarrow> 0 | Some p \<Rightarrow> p);
          size = min (case pp_page_size params of None \<Rightarrow> 50 | Some n \<Rightarrow> n) 200
      in case get_k8s_events_paginated C cfg pg size d of
           Inr (its, tot) \<Rightarrow> Ok_200 \<lparr>pr_items = its, pr_total = tot, pr_page = pg, pr_page_size = size\<rparr>
         | Inl e \<Rightarrow> Internal_500 (error_string e))"

definition network_events_handler :: "('d, 'i, 'j) clickhouse \<Rightarrow> table_config \<Rightarrow> pagination_params \<Rightarrow> 'd
    \<Rightarrow> ebpf_network_event http_reply" where
  "network_events_handler C cfg params d =
     (let pg = (case pp_page params of None \<Rightarrow> 0 | Some p \<Rightarrow> p);
          size = min (case pp_page_size params of None \<Rightarrow> 100 | Some n \<Rightarrow> n) 500
      in case get_network_events_paginated C cfg pg size d of
           Inr (its, tot) \<Rightarrow> Ok_200 \<lparr>pr_items = its, pr_total = tot, pr_page = pg, pr_page_size = size\<rparr>
         | Inl e \<Rightarrow> Internal_500 (error_string e))"

section \<open>What the flush relies on\<close>

text \<open>
  \<open>content d\<close> is the rows of the table of network events in the database \<open>d\<close>, \<open>pending h\<close>
  the rows written to the open insert \<open>h\<close>. The query for the keys answers with the
  keys of the rows that are there; a new insert is empty, a write adds its row,
  and an insert that ends successfully has added its rows to the table.
\<close>

definition clickhouse_laws :: "('d, 'i, 'j) clickhouse \<Rightarrow> table_config \<Rightarrow> ('d \<Rightarrow> ebpf_network_event multiset)
    \<Rightarrow> ('i \<Rightarrow> ebpf_network_event list) \<Rightarrow> bool" where
  "clickhouse_laws C cfg content pending \<longleftrightarrow>
     (\<forall>d ks. ch_edge_keys C (edge_keys_sql cfg) d = Inr ks \<longrightarrow> set ks = row_key_of ` set_mset (content d)) \<and>
     (\<forall>d h. ins_open (ch_insert_ebpf C) (ebpf_network_events cfg) d = Inr h \<longrightarrow> pending h = []) \<and>
     (\<forall>r h h'. ins_write (ch_insert_ebpf C) r h = Inr h' \<longrightarrow> pending h' = pending h @ [r]) \<and>
     (\<forall>h d u d'. ins_end (ch_insert_ebpf C) h d = (Inr u, d') \<longrightarrow> content d' = content d + mset (pending h))"

text \<open>A client over a list of rows.\<close>

definition list_client :: "(ebpf_network_event list, ebpf_network_event list, k8s_resource_event list) clickhouse" where
  "list_client =
     \<lparr>ch_execute = (\<lambda>_ d. (Inr (), d)),
      ch_edge_keys = (\<lambda>_ d. Inr (map row_key_of d)),
      ch_count = (\<lambda>_ d. Inr (of_nat (length d))),
      ch_ebpf_rows = (\<lambda>_ d. Inr d),
      ch_k8s_rows = (\<lambda>_ _. Inr []),
      ch_insert_ebpf = \<lparr>ins_open = (\<lambda>_ _. Inr []), ins_write = (\<lambda>r h. Inr (h @ [r])), ins_end = (\<lambda>h d. (Inr (), d @ h))\<rparr>,
      ch_insert_k8s = \<lparr>ins_open = (\<lambda>_ _. Inr []), ins_write = (\<lambda>r h. Inr (h @ [r])), ins_end = (\<lambda>h d. (Inr (), d))\<rparr>\<rparr>"

lemma list_client_laws: "clickhouse_laws list_client cfg mset id"
  by (simp add: clickhouse_laws_def list_client_def)

lemma laws_keys:
  "clickhouse_laws C cfg content pending \<Longrightarrow> ch_edge_keys C (edge_keys_sql cfg) d = Inr ks \<Longrightarrow>
     set ks = row_key_of ` set_mset (content d)"
  by (simp add: clickhouse_laws_def)

lemma write_all_pending:
  assumes "clickhouse_laws C cfg content pending"
  shows "write_all (ch_insert_ebpf C) rows h = Inr h' \<Longrightarrow> pending h' = pending h @ rows"
proof (induction rows arbitrary: h)
  case (Cons r rows)
  then show ?case using assms by (fastforce simp: clickhouse_laws_def split: sum.splits)
qed simp

lemma insert_rows_content:
  assumes laws: "clickhouse_laws C cfg content pending"
    and ok: "insert_rows (ch_insert_ebpf C) (ebpf_network_events cfg) rows d = (Inr u, d')"
  shows "content d' = content d + mset rows"
proof -
  obtain h h' u' where h: "ins_open (ch_insert_ebpf C) (ebpf_network_events cfg) d = Inr h"
      "write_all (ch_insert_ebpf C) rows h = Inr h'" "ins_end (ch_insert_ebpf C) h' d = (Inr u', d')"
    using ok by (auto simp: insert_rows_def split: sum.splits prod.splits)
  have "pending h' = rows" using write_all_pending [OF laws h(2)] h(1) laws by (simp add: clickhouse_laws_def)
  then show ?thesis using h(3) laws by (auto simp: clickhouse_laws_def)
qed

text \<open>A successful batch adds exactly the rows whose key was not stored.\<close>

lemma add_events_content:
  assumes laws: "clickhouse_laws C cfg content pending" and ok: "add_events C cfg events d = (Inr u, d')"
  shows "content d' = content d + mset (filter (\<lambda>e. row_key_of e \<notin> row_key_of ` set_mset (content d)) events)"
proof (cases "events = []")
  case True
  then show ?thesis using ok by (simp add: add_events_def)
next
  case False
  then obtain ks where ks: "ch_edge_keys C (edge_keys_sql cfg) d = Inr ks"
    using ok by (auto simp: add_events_def split: sum.splits)
  let ?new = "filter (\<lambda>e. row_key_of e \<notin> set ks) events"
  have "content d' = content d + mset ?new"
  proof (cases "?new = []")
    case True
    then show ?thesis using ok ks False by (simp add: add_events_def Let_def)
  next
    case new: False
    then have "insert_rows (ch_insert_ebpf C) (ebpf_network_events cfg) ?new d = (Inr u, d')"
      using ok ks False by (simp add: add_events_def Let_def)
    then show ?thesis by (rule insert_rows_content [OF laws])
  qed
  then show ?thesis using laws_keys [OF laws ks] by simp
qed

text \<open>A batch of keys that are all stored changes nothing, even when a call fails.\<close>

lemma add_events_stored:
  assumes laws: "clickhouse_laws C cfg content pending"
    and "row_key_of ` set events \<subseteq> row_key_of ` set_mset (content d)"
  shows "snd (add_events C cfg events d) = d"
proof -
  have "filter (\<lambda>e. row_key_of e \<notin> set ks) events = []" if "ch_edge_keys C (edge_keys_sql cfg) d = Inr ks" for ks
    using assms(2) laws_keys [OF laws that] by (auto simp: filter_empty_conv)
  then show ?thesis by (simp add: add_events_def Let_def split: sum.split)
qed

lemma add_events_keys:
  assumes "clickhouse_laws C cfg content pending" and "add_events C cfg events d = (Inr u, d')"
  shows "row_key_of ` set_mset (content d') = row_key_of ` set_mset (content d) \<union> row_key_of ` set events"
proof -
  let ?K = "row_key_of ` set_mset (content d)"
  have "row_key_of ` {e \<in> set events. row_key_of e \<notin> ?K} \<union> ?K = ?K \<union> row_key_of ` set events" by blast
  then show ?thesis unfolding add_events_content [OF assms] by (simp add: image_Un Un_commute)
qed

lemma write_all_list_client: "write_all (ch_insert_ebpf list_client) rows h = Inr (h @ rows)"
  by (induction rows arbitrary: h) (simp_all add: list_client_def)

lemma add_events_list_client:
  "add_events list_client cfg evs d = (Inr (), d @ filter (\<lambda>e. row_key_of e \<notin> row_key_of ` set d) evs)"
proof -
  have "ch_edge_keys list_client q d = Inr (map row_key_of d)" "ins_open (ch_insert_ebpf list_client) q d = Inr []"
    "ins_end (ch_insert_ebpf list_client) h d = (Inr (), d @ h)" for q h
    by (simp_all add: list_client_def)
  then show ?thesis by (auto simp: add_events_def insert_rows_def write_all_list_client Let_def filter_empty_conv)
qed

lemma flush_row_keys: "row_key_of ` set (flush_rows now t) = row_key_of ` set (flush_rows now' t)"
  by (simp add: flush_rows_def flow_row_def row_key_of_def image_image)

lemma set_flush_rows: "set (flush_rows now t) = flow_row now ` flow_set t"
  by (simp add: flush_rows_def flow_set_def hm_elems_def)

section \<open>Properties\<close>

text \<open>C26. Flushing the same graph again, at any later time, writes nothing: a successful flush has
  stored every key, so the periodic timer does not fill the table with copies.\<close>

theorem flush_idempotent:
  assumes "clickhouse_laws C cfg content pending" and "fst (add_events C cfg (flush_rows now t) d) = Inr u"
  shows "flush_tick C cfg now' (new_lock t) (flush_tick C cfg now (new_lock t) d) = flush_tick C cfg now (new_lock t) d"
proof -
  obtain d' where d': "add_events C cfg (flush_rows now t) d = (Inr u, d')" using assms(2) by (metis prod.collapse)
  have "row_key_of ` set (flush_rows now' t) \<subseteq> row_key_of ` set_mset (content d')"
    using add_events_keys [OF assms(1) d'] flush_row_keys [of now t now'] by simp
  then have "snd (add_events C cfg (flush_rows now' t) d') = d'" by (rule add_events_stored [OF assms(1)])
  moreover have "flush_rows now' t = [] \<longleftrightarrow> flush_rows now t = []" by (simp add: flush_rows_def)
  ultimately show ?thesis using d' by (simp add: flush_tick_def Let_def)
qed

theorem flush_idempotent_witness:
  "flush_tick list_client \<lparr>ebpf_network_events = ''e'', k8s_resource_events = ''k''\<rparr> 9 (new_lock half_resolved)
     (flush_tick list_client \<lparr>ebpf_network_events = ''e'', k8s_resource_events = ''k''\<rparr> 5 (new_lock half_resolved) []) =
   flush_tick list_client \<lparr>ebpf_network_events = ''e'', k8s_resource_events = ''k''\<rparr> 5 (new_lock half_resolved) []"
  by (rule flush_idempotent [OF list_client_laws, of _ _ _ _ "()"])
     (simp add: add_events_list_client)

text \<open>C27. What a successful flush stores, exactly: to the rows of the table are added the rows of those
  recorded flows for which no row with the same application names and path (and the port 0 every
  flushed row has) was stored before, one for each such flow. So no stored row is lost, and afterwards every
  recorded flow has a row with its application names and its path; but a flow that differs from
  a row stored before only in a namespace or in the method is not stored.\<close>

theorem flush_exact:
  assumes "clickhouse_laws C cfg content pending" and "add_events C cfg (flush_rows now t) d = (Inr u, d')"
  shows "content d' = content d + image_mset (flow_row now) {#f \<in># hm_elems (downstream t).
      \<not> (\<exists>r \<in># content d. src_application r = application_name (source_node f) \<and>
          dst_application r = application_name (destination_node f) \<and> ev_path r = flow_path f \<and> ev_dst_port r = 0)#} \<and>
    (\<forall>f \<in> flow_set t. \<exists>r \<in># content d'. src_application r = application_name (source_node f) \<and>
      dst_application r = application_name (destination_node f) \<and> ev_path r = flow_path f)"
proof
  let ?stored = "\<lambda>f. \<exists>r \<in># content d. src_application r = application_name (source_node f) \<and>
          dst_application r = application_name (destination_node f) \<and> ev_path r = flow_path f \<and> ev_dst_port r = 0"
  have key: "row_key_of (flow_row now f) \<in> row_key_of ` set_mset (content d) \<longleftrightarrow> ?stored f" for f
    by (force simp: row_key_of_def flow_row_def image_iff)
  have "mset (filter (\<lambda>e. row_key_of e \<notin> row_key_of ` set_mset (content d)) (flush_rows now t)) =
      image_mset (flow_row now) {#f \<in># hm_elems (downstream t). \<not> ?stored f#}"
    by (simp add: flush_rows_def hm_elems_def filter_map comp_def key)
  then show "content d' = content d + image_mset (flow_row now) {#f \<in># hm_elems (downstream t). \<not> ?stored f#}"
    unfolding add_events_content [OF assms] by simp
  show "\<forall>f \<in> flow_set t. \<exists>r \<in># content d'. src_application r = application_name (source_node f) \<and>
      dst_application r = application_name (destination_node f) \<and> ev_path r = flow_path f"
  proof
    fix f assume "f \<in> flow_set t"
    then have "row_key_of (flow_row now f) \<in> row_key_of ` set_mset (content d')"
      unfolding add_events_keys [OF assms] set_flush_rows by blast
    then obtain r where "r \<in># content d'" "row_key_of (flow_row now f) = row_key_of r" by (rule imageE)
    then show "\<exists>r \<in># content d'. src_application r = application_name (source_node f) \<and>
      dst_application r = application_name (destination_node f) \<and> ev_path r = flow_path f"
      by (intro bexI [of _ r]) (simp_all add: row_key_of_def flow_row_def)
  qed
qed

theorem flush_exact_witness:
  "\<exists>r \<in># mset (snd (add_events list_client \<lparr>ebpf_network_events = ''e'', k8s_resource_events = ''k''\<rparr>
      (flush_rows 5 make_graph) [])). src_application r = ''svc-b'' \<and> dst_application r = ''svc-c'' \<and> ev_path r = ''/''"
proof -
  have "test_flow ''svc-b'' ''ns'' ''svc-c'' ''ns'' \<in> flow_set make_graph" by code_simp
  then show ?thesis
    using flush_exact [OF list_client_laws add_events_list_client, where now = 5 and t = make_graph and d = "[]"]
    by (fastforce simp: test_flow_def add_events_list_client)
qed

text \<open>The key of the deduplication has neither the namespaces nor the method: an event that
  differs from a stored row only there is acknowledged and not stored.\<close>

theorem same_key_not_stored:
  assumes "clickhouse_laws C cfg content pending" and "r \<in># content d"
    and "src_application e = src_application r" and "dst_application e = dst_application r"
    and "ev_path e = ev_path r" and "ev_dst_port e = ev_dst_port r"
  shows "snd (add_events C cfg [e] d) = d"
  using assms by (intro add_events_stored [OF assms(1)]) (auto simp: row_key_of_def)

theorem same_key_not_stored_witness:
  "snd (add_events list_client \<lparr>ebpf_network_events = ''e'', k8s_resource_events = ''k''\<rparr>
     [(flow_row 9 (test_flow ''a'' ''prod'' ''b'' ''prod''))\<lparr>ev_method := ''POST''\<rparr>]
     [flow_row 5 (test_flow ''a'' ''dev'' ''b'' ''dev'')]) = [flow_row 5 (test_flow ''a'' ''dev'' ''b'' ''dev'')]"
  by (rule same_key_not_stored [OF list_client_laws, where r = "flow_row 5 (test_flow ''a'' ''dev'' ''b'' ''dev'')"])
     (simp_all add: flow_row_def test_flow_def)

text \<open>C29. The paginated reads of both routes, on every request: the Kubernetes route fetches the requested
  number of rows (50 if none is given) but at most 200, the network route (100 if none is given)
  at most 500, starting at row page times size modulo two to the 64, which is that row itself as long as the
  product fits 64 bits and another one beyond. The number of rows in the table and the size in use are
  reported, and a failure of either query is an error reply.\<close>

theorem paginated_reads:
  fixes params :: pagination_params
  defines "pg \<equiv> (case pp_page params of None \<Rightarrow> 0 | Some p \<Rightarrow> p)"
    and "sz \<equiv> min (case pp_page_size params of None \<Rightarrow> 50 | Some n \<Rightarrow> unat n) 200"
    and "nz \<equiv> min (case pp_page_size params of None \<Rightarrow> 100 | Some n \<Rightarrow> unat n) 500"
  shows "k8s_events_handler C cfg params d =
    (case ch_count C (''SELECT count() AS c FROM '' @ k8s_resource_events cfg) d of
       Inl e \<Rightarrow> Internal_500 (''Failed to fetch events: '' @ e)
     | Inr tot \<Rightarrow>
        (case ch_k8s_rows C (''SELECT * FROM '' @ k8s_resource_events cfg @ '' ORDER BY event_time DESC LIMIT '' @
                nat_str sz @ '' OFFSET '' @ nat_str (unat pg * sz mod 2 ^ 64)) d of
           Inl e \<Rightarrow> Internal_500 (''Failed to fetch events: '' @ e)
         | Inr its \<Rightarrow> Ok_200 \<lparr>pr_items = its, pr_total = tot, pr_page = pg, pr_page_size = of_nat sz\<rparr>)) \<and>
    network_events_handler C cfg params d =
    (case ch_count C (''SELECT count() AS c FROM '' @ ebpf_network_events cfg) d of
       Inl e \<Rightarrow> Internal_500 (''Failed to fetch events: '' @ e)
     | Inr tot \<Rightarrow>
        (case ch_ebpf_rows C (''SELECT * FROM '' @ ebpf_network_events cfg @ '' ORDER BY timestamp_ns DESC LIMIT '' @
                nat_str nz @ '' OFFSET '' @ nat_str (unat pg * nz mod 2 ^ 64)) d of
           Inl e \<Rightarrow> Internal_500 (''Failed to fetch events: '' @ e)
         | Inr its \<Rightarrow> Ok_200 \<lparr>pr_items = its, pr_total = tot, pr_page = pg, pr_page_size = of_nat nz\<rparr>))"
proof -
  let ?w = "min (case pp_page_size params of None \<Rightarrow> 50 | Some n \<Rightarrow> n) (200 :: u64)"
  let ?v = "min (case pp_page_size params of None \<Rightarrow> 100 | Some n \<Rightarrow> n) (500 :: u64)"
  have w: "unat ?w = sz" and v: "unat ?v = nz"
    by (simp_all add: sz_def nz_def min_def word_le_nat_alt split: option.split)
  have "unat (pg * ?w) = unat pg * sz mod 2 ^ 64" "unat (pg * ?v) = unat pg * nz mod 2 ^ 64"
    by (simp_all only: unat_word_ariths w v) simp_all
  moreover have "?w = of_nat sz" "?v = of_nat nz" by (simp_all add: w [symmetric] v [symmetric])
  moreover have "unat (of_nat sz :: u64) = sz" "unat (of_nat nz :: u64) = nz" using w v calculation(3,4) by simp_all
  ultimately show ?thesis
    by (simp add: k8s_events_handler_def get_k8s_events_paginated_def network_events_handler_def
        get_network_events_paginated_def Let_def pg_def [symmetric] count_sql_def page_sql_def split: sum.split)
qed

end
