(* ===== verification/Core_Run.thy ===== *)
theory Core_Run
  imports Query_Server Dao
begin

text \<open>
  Core as a process: configuration (\<^verbatim>\<open>core/src/config/config.rs\<close>), the HTTP routes
  (\<^verbatim>\<open>core/src/server/http.rs\<close>), the construction of the servers over shared state
  (\<^verbatim>\<open>core/src/server/factory.rs\<close>) and \<open>run\<close> (\<^verbatim>\<open>core/src/lib.rs\<close>, \<^verbatim>\<open>core/src/main.rs\<close>): the schema is
  created, then requests, spawned tasks, the flush timer and the expiry of old rows interleave over one
  in-memory state and one database until a server ends or a signal arrives.
\<close>

section \<open>Configuration\<close>

record envoy_config =
  ec_admin_api :: string
  ec_refresh_interval_secs :: u64

record app_config =
  ap_http_port :: u16
  ap_grpc_port :: u16
  ap_upstream :: string
  ap_ebpf_bulk_insertion_max_size :: u16
  ap_ebpf_flush_interval_secs :: u64

record leader_election_config =
  lc_enabled :: bool
  lc_lease_duration :: string
  lc_renew_deadline :: string
  lc_retry_period :: string

record kubernetes_config =
  kc_in_cluster :: bool
  kc_namespace :: string
  kc_leader_election :: leader_election_config

record db_config =
  dc_host :: string
  dc_port :: u16
  dc_user :: string
  dc_password :: string
  dc_table :: table_config

record qubit_config =
  qc_app :: app_config
  qc_kubernetes :: kubernetes_config
  qc_db :: db_config
  qc_envoy :: envoy_config

text \<open>Reading the file and parsing YAML are parameters.\<close>

definition init_config :: "(string \<Rightarrow> string option) \<Rightarrow> (string \<Rightarrow> qubit_config option) \<Rightarrow> qubit_config option
    \<Rightarrow> (qubit_config \<times> qubit_config option) option" where
  "init_config read_to_string from_yaml cell =
     get_or_init cell (Option.bind (read_to_string ''config.yaml'') from_yaml)"

definition dao_url :: "qubit_config \<Rightarrow> string" where
  "dao_url config = ''http://'' @ dc_host (qc_db config) @ '':'' @ nat_str (unat (dc_port (qc_db config)))"

definition http_address :: "qubit_config \<Rightarrow> string" where
  "http_address config = ''0.0.0.0'' @ '':'' @ nat_str (unat (ap_http_port (qc_app config)))"

definition grpc_address :: "qubit_config \<Rightarrow> string" where
  "grpc_address config = ''0.0.0.0:'' @ nat_str (unat (ap_grpc_port (qc_app config)))"

section \<open>HTTP routes\<close>

datatype http_route = Ping | TopologyRoute | SubgraphRoute | K8sEventsRoute | NetworkEventsRoute

definition http_routes :: "(string \<times> http_route) list" where
  "http_routes = [(''/ping'', Ping), (''/api/topology'', TopologyRoute), (''/api/topology/subgraph'', SubgraphRoute),
     (''/api/k8s-events'', K8sEventsRoute), (''/api/network-events'', NetworkEventsRoute)]"

datatype http_body =
    PingBody string
  | TopologyBody topology_response
  | K8sPage "k8s_resource_event http_reply"
  | NetworkPage "ebpf_network_event http_reply"

text \<open>The handlers over the shared state of the servers; \<open>None\<close> is a panic of the handler.\<close>

definition serve_http :: "('d, 'i, 'j) clickhouse \<Rightarrow> table_config \<Rightarrow> topology rwlock \<Rightarrow> 'd \<Rightarrow> http_route
    \<Rightarrow> subgraph_params \<Rightarrow> pagination_params \<Rightarrow> http_body option" where
  "serve_http C cfg l d route sp pp =
     (case route of
        Ping \<Rightarrow> Some (PingBody ''pong'')
      | TopologyRoute \<Rightarrow> map_option TopologyBody (topology_handler l)
      | SubgraphRoute \<Rightarrow> map_option TopologyBody (topology_subgraph l sp)
      | K8sEventsRoute \<Rightarrow> Some (K8sPage (k8s_events_handler C cfg pp d))
      | NetworkEventsRoute \<Rightarrow> Some (NetworkPage (network_events_handler C cfg pp d)))"

section \<open>The process\<close>

record ('p, 's, 'e, 'd) core_process =
  cp_core :: "('p, 's, 'e) core_state"
  cp_db :: 'd
  cp_running :: bool

text \<open>\<open>run\<close> up to the servers: a failure of the schema ends it.\<close>

definition core_boot :: "('p, 's, 'e) core_caches \<Rightarrow> ('d, 'i, 'j) clickhouse \<Rightarrow> qubit_config \<Rightarrow> 'd
    \<Rightarrow> (('p, 's, 'e, 'd) core_process, string) rust_result" where
  "core_boot K C config d =
     (case initialize_schema C (dc_table (qc_db config)) d of
        (Inl e, d') \<Rightarrow> Inl (error_string e)
      | (Inr _, d') \<Rightarrow> Inr \<lparr>cp_core = init_core K, cp_db = d', cp_running = True\<rparr>)"

text \<open>
  \<open>content\<close> is the rows of the table of network events. A spawned persistence task
  writes its resource event and logs a failure; the flush timer writes the flows of the
  graph; the table forgets rows after their time to live; a server that ends, or a
  signal, ends the process.
\<close>

inductive process_step :: "('p, 's, 'e) core_caches \<Rightarrow> ((string, string) hash_map \<Rightarrow> string) \<Rightarrow> ('d, 'i, 'j) clickhouse
    \<Rightarrow> table_config \<Rightarrow> ('d \<Rightarrow> ebpf_network_event multiset)
    \<Rightarrow> ('p, 's, 'e, 'd) core_process \<Rightarrow> ('p, 's, 'e, 'd) core_process \<Rightarrow> bool"
  for K to_json C cfg content where
  request: "cp_running p \<Longrightarrow>
    process_step K to_json C cfg content p (p\<lparr>cp_core := snd (handle_rpc K to_json now r (cp_core p))\<rparr>)"
| record_event: "cp_running p \<Longrightarrow> spawned (cp_core p) = xs @ RecordEbpf i # ys \<Longrightarrow>
    process_step K to_json C cfg content p (p\<lparr>cp_core := snd (record_ebpf_event K i ((cp_core p)\<lparr>spawned := xs @ ys\<rparr>))\<rparr>)"
| persist: "cp_running p \<Longrightarrow> spawned (cp_core p) = xs @ PersistK8s e # ys \<Longrightarrow>
    process_step K to_json C cfg content p (p\<lparr>cp_core := (cp_core p)\<lparr>spawned := xs @ ys\<rparr>,
      cp_db := snd (add_k8s_resource_event C cfg e (cp_db p))\<rparr>)"
| flush: "cp_running p \<Longrightarrow>
    process_step K to_json C cfg content p (p\<lparr>cp_db := flush_tick C cfg now_ns (topo (cp_core p)) (cp_db p)\<rparr>)"
| expired: "cp_running p \<Longrightarrow> content d' \<subseteq># content (cp_db p) \<Longrightarrow>
    process_step K to_json C cfg content p (p\<lparr>cp_db := d'\<rparr>)"
| server_ended: "cp_running p \<Longrightarrow> process_step K to_json C cfg content p (p\<lparr>cp_running := False\<rparr>)"

inductive process_run :: "('p, 's, 'e) core_caches \<Rightarrow> ((string, string) hash_map \<Rightarrow> string) \<Rightarrow> ('d, 'i, 'j) clickhouse
    \<Rightarrow> qubit_config \<Rightarrow> ('d \<Rightarrow> ebpf_network_event multiset) \<Rightarrow> 'd \<Rightarrow> ('p, 's, 'e, 'd) core_process \<Rightarrow> bool"
  for K to_json C config content d where
  booted: "core_boot K C config d = Inr p \<Longrightarrow> process_run K to_json C config content d p"
| proceeded: "process_run K to_json C config content d p \<Longrightarrow>
    process_step K to_json C (dc_table (qc_db config)) content p p' \<Longrightarrow> process_run K to_json C config content d p'"

section \<open>The example client\<close>

text \<open>\<^verbatim>\<open>core/examples/send_ebpf_event.rs\<close> sends one call, its addresses in network byte order: on a
  little-endian host \<open>to_be\<close> swaps the bytes as \<open>from_be\<close> does.\<close>

definition example_request :: "u64 \<Rightarrow> ebpf_network_event_request" where
  "example_request now_ns =
     \<lparr>rq_timestamp_ns = now_ns, rq_src_ip = u32_from_be (u32_of_octets (10, 0, 0, 1)),
      rq_dst_ip = u32_from_be (u32_of_octets (10, 0, 0, 2)), rq_src_port = 54321, rq_dst_port = 8080,
      rq_method = ''GET'', rq_path = ''/api/v1/users'', rq_host = ''service-b.default.svc.cluster.local''\<rparr>"

text \<open>Core reads the addresses back in dotted notation.\<close>

lemma example_addresses:
  "\<exists>i. spawned (snd (send_ebpf_network_event (example_request now_ns) s)) = spawned s @ [RecordEbpf i] \<and>
     src_ip_str i = ''10.0.0.1'' \<and> dst_ip_str i = ''10.0.0.2'' \<and> parse_k8s_host (in_host i) = (''service-b'', ''default'')"
proof -
  have swap: "u32_from_be (u32_from_be (u32_of_octets (a, b, c, d))) = u32_of_octets (a, b, c, d)"
    if "a < 256" "b < 256" "c < 256" "d < 256" for a b c d
    using that by (simp add: u32_from_be_def octets_u32_of_octets)
  have "dotted (10, 0, 0, 1) = ''10.0.0.1''" "dotted (10, 0, 0, 2) = ''10.0.0.2''"
    "parse_k8s_host ''service-b.default.svc.cluster.local'' = (''service-b'', ''default'')" by code_simp+
  then show ?thesis
    by (simp add: send_ebpf_network_event_def example_request_def src_ip_str_def dst_ip_str_def swap ipv4_to_string_def
        octets_u32_of_octets)
qed

section \<open>Runs\<close>

text \<open>What else the client is documented to do: statements of the schema keep the rows, the table of
  resource events is another table, and an insert that fails may have added some of its rows.\<close>

definition table_laws :: "('d, 'i, 'j) clickhouse \<Rightarrow> table_config \<Rightarrow> ('d \<Rightarrow> ebpf_network_event multiset)
    \<Rightarrow> ('i \<Rightarrow> ebpf_network_event list) \<Rightarrow> bool" where
  "table_laws C cfg content pending \<longleftrightarrow> clickhouse_laws C cfg content pending \<and>
     (\<forall>q \<in> set (schema_statements cfg). \<forall>d. content (snd (ch_execute C q d)) = content d) \<and>
     (\<forall>h d. content (snd (ins_end (ch_insert_k8s C) h d)) = content d) \<and>
     (\<forall>h d. content (snd (ins_end (ch_insert_ebpf C) h d)) \<subseteq># content d + mset (pending h))"

lemma list_client_table_laws: "table_laws list_client cfg mset id"
  by (simp add: table_laws_def list_client_laws) (simp add: list_client_def)

lemma run_statements_content:
  "\<forall>q \<in> set qs. \<forall>d. content (snd (ex q d)) = content d \<Longrightarrow> content (snd (run_statements ex qs d)) = content d"
proof (induction qs arbitrary: d)
  case (Cons q qs)
  then show ?case by (auto split: prod.split sum.split) (metis snd_conv)+
qed simp

lemma insert_rows_other:
  assumes "\<And>h d. content (snd (ins_end I h d)) = content d"
  shows "content (snd (insert_rows I table rows d)) = content d"
  using assms by (auto simp: insert_rows_def split: sum.split prod.split) (metis snd_conv)+

lemma insert_rows_some:
  assumes "table_laws C cfg content pending"
  shows "content (snd (insert_rows (ch_insert_ebpf C) (ebpf_network_events cfg) rows d)) \<subseteq># content d + mset rows"
proof (cases "ins_open (ch_insert_ebpf C) (ebpf_network_events cfg) d")
  case (Inl e)
  then show ?thesis by (simp add: insert_rows_def)
next
  case (Inr h)
  have laws: "clickhouse_laws C cfg content pending" using assms by (simp add: table_laws_def)
  show ?thesis
  proof (cases "write_all (ch_insert_ebpf C) rows h")
    case (Inl e)
    then show ?thesis using Inr by (simp add: insert_rows_def)
  next
    case w: (Inr h')
    have "pending h = []" using Inr laws unfolding clickhouse_laws_def by blast
    then have "pending h' = rows" using write_all_pending [OF laws w] by simp
    moreover have "snd (insert_rows (ch_insert_ebpf C) (ebpf_network_events cfg) rows d) = snd (ins_end (ch_insert_ebpf C) h' d)"
      using Inr w by (cases "ins_end (ch_insert_ebpf C) h' d"; cases "fst (ins_end (ch_insert_ebpf C) h' d)")
        (simp_all add: insert_rows_def)
    ultimately show ?thesis using assms unfolding table_laws_def by metis
  qed
qed

lemma flush_tick_rows:
  assumes "table_laws C cfg content pending" and "r \<in># content (flush_tick C cfg now_ns l d)"
  shows "r \<in># content d \<or> \<not> poisoned l \<and> (\<exists>f \<in> flow_set (inner l). r = flow_row now_ns f)"
proof (cases "poisoned l \<or> flush_tick C cfg now_ns l d = d")
  case True
  then show ?thesis using assms(2) by (auto simp: flush_tick_def)
next
  case False
  let ?evs = "flush_rows now_ns (inner l)"
  obtain ks where eq: "flush_tick C cfg now_ns l d = snd (insert_rows (ch_insert_ebpf C) (ebpf_network_events cfg)
      (filter (\<lambda>e. row_key_of e \<notin> set ks) ?evs) d)"
    using False by (auto simp: flush_tick_def add_events_def Let_def split: if_splits sum.splits)
  have "r \<in># content d + mset (filter (\<lambda>e. row_key_of e \<notin> set ks) ?evs)"
    by (rule mset_subset_eqD [OF insert_rows_some [OF assms(1)]]) (rule assms(2) [unfolded eq])
  then show ?thesis using False set_flush_rows [of now_ns "inner l"] by auto
qed

lemma process_core_reachable: "process_run K to_json C config content d p \<Longrightarrow> core_reachable K to_json (cp_core p)"
proof (induction rule: process_run.induct)
  case (booted p)
  then show ?case by (auto simp: core_boot_def core_reachable.start split: prod.splits sum.splits)
next
  case (proceeded p p')
  from proceeded(2) proceeded(3) show ?case
    by (induction rule: process_step.induct) (auto intro: core_reachable.step core_step.intros)
qed

text \<open>A row the process can have written: the row of a flow of a reachable graph.\<close>

definition observed_row :: "('p, 's, 'e) core_caches \<Rightarrow> ((string, string) hash_map \<Rightarrow> string) \<Rightarrow> ebpf_network_event \<Rightarrow> bool" where
  "observed_row K to_json r \<longleftrightarrow>
     (\<exists>s now f. core_reachable K to_json s \<and> f \<in> flow_set (inner (topo s)) \<and> r = flow_row now f)"

lemma observed_row_named: "observed_row K to_json r \<Longrightarrow> src_application r \<noteq> []"
  using core_inv_reachable by (fastforce simp: observed_row_def core_inv_def sources_named_def flow_row_def)

lemma process_rows:
  assumes "table_laws C (dc_table (qc_db config)) content pending"
  shows "process_run K to_json C config content d p \<Longrightarrow> r \<in># content (cp_db p) \<Longrightarrow> r \<in># content d \<or> observed_row K to_json r"
proof (induction rule: process_run.induct)
  case (booted p)
  have "content (snd (initialize_schema C (dc_table (qc_db config)) d)) = content d"
    unfolding initialize_schema_def using assms by (intro run_statements_content) (simp add: table_laws_def)
  with booted show ?case by (auto simp: core_boot_def split: prod.splits sum.splits)
next
  case (proceeded p p')
  note reach = process_core_reachable [OF proceeded(1)]
  from proceeded(2) proceeded(3,4) reach show ?case
  proof (induction rule: process_step.induct)
    case (persist p xs e ys)
    moreover have "content (snd (add_k8s_resource_event C (dc_table (qc_db config)) e (cp_db p))) = content (cp_db p)"
      unfolding add_k8s_resource_event_def using assms by (intro insert_rows_other) (simp add: table_laws_def)
    ultimately show ?case by simp
  next
    case (flush p now_ns)
    then show ?case using flush_tick_rows [OF assms, of r now_ns "topo (cp_core p)" "cp_db p"]
      by (auto simp: observed_row_def)
  qed (auto dest: mset_subset_eqD)
qed

section \<open>Properties\<close>

text \<open>C10. In every state of a run of the Core process, whatever requests, tasks, timer ticks and expiries came
  before: the graph is well formed, no HTTP route panics, and every row in the table of network
  events was there at the start or is the row of a flow that a reachable graph recorded, with a
  named caller. A row of an unattributed call is never written.\<close>

theorem core_run_consistent:
  assumes "table_laws C (dc_table (qc_db config)) content pending"
    and "process_run K to_json C config content d p"
  shows "topo_inv (inner (topo (cp_core p))) \<and>
    serve_http C (dc_table (qc_db config)) (topo (cp_core p)) (cp_db p) route sp pp \<noteq> None \<and>
    (\<forall>r \<in># content (cp_db p). r \<in># content d \<or> observed_row K to_json r \<and> src_application r \<noteq> [])"
proof (intro conjI ballI)
  have inv: "core_inv (cp_core p)" by (rule core_inv_reachable [OF process_core_reachable [OF assms(2)]])
  then show "topo_inv (inner (topo (cp_core p)))" by (simp add: core_inv_def)
  show "serve_http C (dc_table (qc_db config)) (topo (cp_core p)) (cp_db p) route sp pp \<noteq> None"
    using inv by (cases route) (simp_all add: serve_http_def core_inv_def topology_handler_def topology_subgraph_def Let_def)
  fix r assume "r \<in># content (cp_db p)"
  then show "r \<in># content d \<or> observed_row K to_json r \<and> src_application r \<noteq> []"
    using process_rows [OF assms] observed_row_named by blast
qed

definition sample_qubit_config :: qubit_config where
  "sample_qubit_config =
     \<lparr>qc_app = \<lparr>ap_http_port = 8080, ap_grpc_port = 50051, ap_upstream = [], ap_ebpf_bulk_insertion_max_size = 100,
         ap_ebpf_flush_interval_secs = 30\<rparr>,
      qc_kubernetes = \<lparr>kc_in_cluster = True, kc_namespace = ''default'', kc_leader_election =
         \<lparr>lc_enabled = False, lc_lease_duration = ''15s'', lc_renew_deadline = ''10s'', lc_retry_period = ''2s''\<rparr>\<rparr>,
      qc_db = \<lparr>dc_host = ''clickhouse'', dc_port = 8123, dc_user = ''default'', dc_password = [],
         dc_table = \<lparr>ebpf_network_events = ''e'', k8s_resource_events = ''k''\<rparr>\<rparr>,
      qc_envoy = \<lparr>ec_admin_api = [], ec_refresh_interval_secs = 30\<rparr>\<rparr>"

theorem core_run_consistent_witness:
  "\<exists>p. core_boot hash_caches list_client sample_qubit_config [] = Inr p \<and>
     process_run hash_caches (\<lambda>_. ''{}'') list_client sample_qubit_config mset [] p \<and>
     serve_http list_client (dc_table (qc_db sample_qubit_config)) (topo (cp_core p)) (cp_db p) TopologyRoute
       \<lparr>pa_service = [], pa_namespace = [], pa_depth = None\<rparr> \<lparr>pp_page = None, pp_page_size = None\<rparr> \<noteq> None"
proof -
  have "snd (initialize_schema list_client cfg []) = [] \<and> fst (initialize_schema list_client cfg []) = Inr ()" for cfg
    by (simp add: initialize_schema_def schema_statements_def list_client_def)
  then have "initialize_schema list_client cfg [] = (Inr (), [])" for cfg by (metis prod.collapse)
  then have boot: "core_boot hash_caches list_client sample_qubit_config [] =
      Inr \<lparr>cp_core = init_core hash_caches, cp_db = [], cp_running = True\<rparr>"
    by (simp add: core_boot_def)
  then have "process_run hash_caches (\<lambda>_. ''{}'') list_client sample_qubit_config mset []
      \<lparr>cp_core = init_core hash_caches, cp_db = [], cp_running = True\<rparr>"
    by (rule process_run.booted)
  then show ?thesis
    using boot core_run_consistent [OF list_client_table_laws] by blast
qed

end
