(* ===== verification/Mcp_Server.thy ===== *)
theory Mcp_Server
  imports Query_Server Dao "HOL-Library.List_Lexorder" "HOL-Library.Char_ord"
begin

text \<open>
  The assistant's server, \<^verbatim>\<open>mcp-server/src\<close>: the client of Core's query service
  (\<^verbatim>\<open>grpc_client.rs\<close>), the ClickHouse queries (\<^verbatim>\<open>ch_client.rs\<close>) and the four tools
  (\<^verbatim>\<open>tools.rs\<close>). A tool is a function from its input and the answer of the back
  end to the text it returns. The order in which a decoded hash map is traversed is
  not determined; strings are compared bytewise, as Rust does.
\<close>

section \<open>Text\<close>

text \<open>The UTF-8 bytes of the arrows and the dash the reports contain.\<close>

definition arrow_right :: string where
  "arrow_right = [CHR 0xE2, CHR 0x86, CHR 0x92]"

definition arrow_left :: string where
  "arrow_left = [CHR 0xE2, CHR 0x86, CHR 0x90]"

definition em_dash :: string where
  "em_dash = [CHR 0xE2, CHR 0x80, CHR 0x94]"

definition quote :: char where
  "quote = CHR 0x27"

section \<open>The clients\<close>

text \<open>\<open>GrpcClient::get_topology\<close>: the answer of the call, a failure as the text \<open>tonic\<close> prints for
  its status.\<close>

definition grpc_get_topology :: "(status \<Rightarrow> string) \<Rightarrow> (get_topology_response, status) rust_result
    \<Rightarrow> (get_topology_response, string) rust_result" where
  "grpc_get_topology show_status answer =
     (case answer of Inl st \<Rightarrow> Inl (show_status st) | Inr response \<Rightarrow> Inr response)"

record ebpf_row =
  eb_timestamp_ns :: u64
  eb_src_service :: string
  eb_src_namespace :: string
  eb_dst_service :: string
  eb_dst_namespace :: string
  eb_src_port :: u16
  eb_dst_port :: u16
  eb_method :: string
  eb_path :: string
  eb_host :: string

record k8s_row =
  kw_event_time :: u32
  kw_resource_type :: string
  kw_name :: string
  kw_namespace :: string
  kw_event_type :: string
  kw_labels :: string
  kw_resource_data :: string

record mcp_clickhouse_config =
  mc_host :: string
  mc_port :: u16
  mc_user :: string
  mc_password :: string
  mc_database :: string
  mc_ebpf_table :: string
  mc_k8s_table :: string

record mcp_config =
  mq_grpc_address :: string
  mq_clickhouse :: mcp_clickhouse_config

text \<open>The first of the three candidates that exists is read; a failure there is not covered by the others.\<close>

definition load_config :: "string option \<Rightarrow> (string \<Rightarrow> bool) \<Rightarrow> (string \<Rightarrow> (string, string) rust_result)
    \<Rightarrow> (string \<Rightarrow> (mcp_config, string) rust_result) \<Rightarrow> (mcp_config, string) rust_result" where
  "load_config exe_dir exists read_to_string from_yaml =
     (let candidates = [map_option (\<lambda>d. d @ ''/config.yaml'') exe_dir, Some ''config.yaml'', Some ''mcp-server/config.yaml''] in
      case find exists (List.map_filter id candidates) of
        None \<Rightarrow> Inl ''config.yaml not found''
      | Some candidate \<Rightarrow>
          (case read_to_string candidate of
             Inl e \<Rightarrow> Inl e
           | Inr content \<Rightarrow> from_yaml content))"

record ch_client =
  cl_url :: string
  cl_database :: string
  cl_user :: string
  cl_password :: string
  cl_ebpf_table :: string
  cl_k8s_table :: string

definition new_ch_client :: "mcp_clickhouse_config \<Rightarrow> ch_client" where
  "new_ch_client config =
     \<lparr>cl_url = ''http://'' @ mc_host config @ '':'' @ nat_str (unat (mc_port config)),
      cl_database = mc_database config, cl_user = mc_user config, cl_password = mc_password config,
      cl_ebpf_table = mc_ebpf_table config, cl_k8s_table = mc_k8s_table config\<rparr>"

definition sanitize :: "string \<Rightarrow> string" where
  "sanitize input = replace_char quote [] input"

text \<open>\<open>if let Some(v) = value { conditions.push(format!("column = '{}'", sanitize(v))) }\<close>\<close>

definition filter_condition :: "string \<Rightarrow> string option \<Rightarrow> string list" where
  "filter_condition column v =
     (case v of None \<Rightarrow> [] | Some s \<Rightarrow> [column @ '' = '' @ [quote] @ sanitize s @ [quote]])"

definition k8s_events_sql :: "ch_client \<Rightarrow> string option \<Rightarrow> string option \<Rightarrow> u32 \<Rightarrow> string" where
  "k8s_events_sql ch ns rtype last_minutes =
     (let conditions = [''event_time >= now() - INTERVAL '' @ nat_str (unat last_minutes) @ '' MINUTE'']
            @ filter_condition ''namespace'' ns @ filter_condition ''resource_type'' rtype
      in ''SELECT event_time, resource_type, name, namespace, event_type, labels, resource_data FROM ''
         @ cl_k8s_table ch @ '' WHERE '' @ str_join '' AND '' conditions @ '' ORDER BY event_time DESC LIMIT 100'')"

text \<open>\<open>last_minutes * 60\<close> is a product of \<open>u32\<close>.\<close>

definition network_events_sql :: "ch_client \<Rightarrow> string option \<Rightarrow> string option \<Rightarrow> u32 \<Rightarrow> string" where
  "network_events_sql ch src dst last_minutes =
     (let conditions = [''timestamp_ns >= (toUnixTimestamp(now()) - '' @ nat_str (unat (last_minutes * 60))
              @ '') * 1000000000'']
            @ filter_condition ''src_service'' src @ filter_condition ''dst_service'' dst
      in ''SELECT timestamp_ns, src_service, src_namespace, dst_service, dst_namespace, ''
         @ ''src_port, dst_port, method, path, host FROM ''
         @ cl_ebpf_table ch @ '' WHERE '' @ str_join '' AND '' conditions @ '' ORDER BY timestamp_ns DESC LIMIT 100'')"

text \<open>\<open>client.query(&query).fetch_all()\<close> is the parameter \<open>fetch\<close>.\<close>

definition ch_get_k8s_events :: "(string \<Rightarrow> (k8s_row list, string) rust_result) \<Rightarrow> ch_client
    \<Rightarrow> string option \<Rightarrow> string option \<Rightarrow> u32 \<Rightarrow> (k8s_row list, string) rust_result" where
  "ch_get_k8s_events fetch ch ns rtype last_minutes = fetch (k8s_events_sql ch ns rtype last_minutes)"

definition ch_get_network_events :: "(string \<Rightarrow> (ebpf_row list, string) rust_result) \<Rightarrow> ch_client
    \<Rightarrow> string option \<Rightarrow> string option \<Rightarrow> u32 \<Rightarrow> (ebpf_row list, string) rust_result" where
  "ch_get_network_events fetch ch src dst last_minutes = fetch (network_events_sql ch src dst last_minutes)"

section \<open>The tools\<close>

definition topology_edge_line :: "topology_edge \<Rightarrow> string" where
  "topology_edge_line e = ''    '' @ arrow_right @ '' '' @ te_method e @ '' '' @ te_path e @ '' '' @ arrow_right @ '' ''
     @ te_destination_namespace e @ ''/'' @ te_destination_application e @ nl"

text \<open>The body of the loop over the sorted keys. \<open>topo.nodes[key]\<close> panics on a missing key; the
  keys are those of the map.\<close>

definition topology_section :: "get_topology_response \<Rightarrow> string \<Rightarrow> string" where
  "topology_section resp key =
     (let node = the (hm_get (gt_nodes resp) key) in
      nl @ ''  '' @ tn_namespace node @ ''/'' @ tn_application_name node
      @ (if tn_ip node \<noteq> [] then ''  (ip: '' @ tn_ip node @ '')'' else [])
      @ nl
      @ (case hm_get (gt_downstream resp) key of
           None \<Rightarrow> []
         | Some flows \<Rightarrow> concat (map topology_edge_line (fl_flows flows))))"

definition mcp_get_topology :: "(get_topology_response, string) rust_result \<Rightarrow> string" where
  "mcp_get_topology fetched =
     (case fetched of
        Inl e \<Rightarrow> ''Error fetching topology: '' @ e
      | Inr resp \<Rightarrow>
          if gt_nodes resp = [] then ''No services discovered yet. The cluster may not have traffic flowing.''
          else ''Service Topology ('' @ nat_str (length (gt_nodes resp)) @ '' services):'' @ nl
               @ concat (map (topology_section resp) (sort (map fst (gt_nodes resp)))))"

record get_service_deps_input =
  gi_service :: string
  gi_namespace :: string

definition upstream_edge_line :: "topology_edge \<Rightarrow> string" where
  "upstream_edge_line e = ''    '' @ arrow_left @ '' '' @ te_source_namespace e @ ''/'' @ te_source_application e
     @ '' ('' @ te_method e @ '' '' @ te_path e @ '')'' @ nl"

definition downstream_edge_line :: "topology_edge \<Rightarrow> string" where
  "downstream_edge_line e = ''    '' @ arrow_right @ '' '' @ te_destination_namespace e @ ''/''
     @ te_destination_application e @ '' ('' @ te_method e @ '' '' @ te_path e @ '')'' @ nl"

definition edge_lines :: "(topology_edge \<Rightarrow> string) \<Rightarrow> flow_list option \<Rightarrow> string" where
  "edge_lines line flows =
     (case flows of
        None \<Rightarrow> ''    (none)'' @ nl
      | Some fl \<Rightarrow> if fl_flows fl \<noteq> [] then concat (map line (fl_flows fl)) else ''    (none)'' @ nl)"

definition mcp_get_service_dependencies :: "(get_topology_response, string) rust_result
    \<Rightarrow> get_service_deps_input \<Rightarrow> string" where
  "mcp_get_service_dependencies fetched input =
     (case fetched of
        Inl e \<Rightarrow> ''Error fetching topology: '' @ e
      | Inr resp \<Rightarrow>
          let key = gi_namespace input @ ''/'' @ gi_service input in
          if \<not> hm_contains (gt_nodes resp) key
          then ''Service '' @ [quote] @ key @ [quote] @ '' not found in topology. Known services: ''
               @ str_join '', '' (map fst (gt_nodes resp))
          else ''Dependencies for '' @ key @ '':'' @ nl
               @ nl @ ''  Upstream (callers):'' @ nl
               @ edge_lines upstream_edge_line (hm_get (gt_upstream resp) key)
               @ nl @ ''  Downstream (dependencies):'' @ nl
               @ edge_lines downstream_edge_line (hm_get (gt_downstream resp) key))"

record get_k8s_events_input =
  ki_namespace :: "string option"
  ki_resource_type :: "string option"
  ki_last_minutes :: "u32 option"

record get_network_events_input =
  ni_src_service :: "string option"
  ni_dst_service :: "string option"
  ni_last_minutes :: "u32 option"

definition k8s_row_text :: "k8s_row \<Rightarrow> string" where
  "k8s_row_text row =
     ''  ['' @ kw_event_type row @ ''] '' @ kw_resource_type row @ '' '' @ kw_namespace row @ ''/'' @ kw_name row
     @ '' '' @ em_dash @ '' '' @ nat_str (unat (kw_event_time row)) @ nl
     @ (if kw_resource_data row \<noteq> [] \<and> kw_resource_data row \<noteq> ''{}''
        then ''        data: '' @ kw_resource_data row @ nl else [])"

definition mcp_get_k8s_events :: "(string \<Rightarrow> (k8s_row list, string) rust_result) \<Rightarrow> ch_client
    \<Rightarrow> get_k8s_events_input \<Rightarrow> string" where
  "mcp_get_k8s_events fetch ch input =
     (let minutes = (case ki_last_minutes input of None \<Rightarrow> 60 | Some m \<Rightarrow> m) in
      case ch_get_k8s_events fetch ch (ki_namespace input) (ki_resource_type input) minutes of
        Inl e \<Rightarrow> ''Error querying K8s events: '' @ e
      | Inr rows \<Rightarrow>
          if rows = [] then ''No K8s events found in the last '' @ nat_str (unat minutes) @ '' minutes.''
          else ''K8s Events (last '' @ nat_str (unat minutes) @ '' min, '' @ nat_str (length rows) @ '' results):''
               @ nl @ nl @ concat (map k8s_row_text rows))"

definition ebpf_row_text :: "ebpf_row \<Rightarrow> string" where
  "ebpf_row_text row =
     ''  '' @ eb_src_namespace row @ ''/'' @ eb_src_service row @ '':'' @ nat_str (unat (eb_src_port row))
     @ '' '' @ arrow_right @ '' '' @ eb_dst_namespace row @ ''/'' @ eb_dst_service row @ '':''
     @ nat_str (unat (eb_dst_port row)) @ '' | '' @ eb_method row @ '' '' @ eb_path row @ '' | host='' @ eb_host row @ nl"

definition mcp_get_network_events :: "(string \<Rightarrow> (ebpf_row list, string) rust_result) \<Rightarrow> ch_client
    \<Rightarrow> get_network_events_input \<Rightarrow> string" where
  "mcp_get_network_events fetch ch input =
     (let minutes = (case ni_last_minutes input of None \<Rightarrow> 60 | Some m \<Rightarrow> m) in
      case ch_get_network_events fetch ch (ni_src_service input) (ni_dst_service input) minutes of
        Inl e \<Rightarrow> ''Error querying network events: '' @ e
      | Inr rows \<Rightarrow>
          if rows = [] then ''No network events found in the last '' @ nat_str (unat minutes) @ '' minutes.''
          else ''Network Events (last '' @ nat_str (unat minutes) @ '' min, '' @ nat_str (length rows) @ '' results):''
               @ nl @ nl @ concat (map ebpf_row_text rows))"

section \<open>Reference report\<close>

text \<open>Two answers with the same entries: a map field of a message is decoded in any order.\<close>

definition same_entries :: "get_topology_response \<Rightarrow> get_topology_response \<Rightarrow> bool" where
  "same_entries r r' \<longleftrightarrow> mset (gt_nodes r') = mset (gt_nodes r) \<and> mset (gt_upstream r') = mset (gt_upstream r) \<and>
     mset (gt_downstream r') = mset (gt_downstream r)"

text \<open>The reports, written over the graph.\<close>

definition node_report :: "topology \<Rightarrow> node_id \<Rightarrow> string" where
  "node_report t n =
     (let a = ip (the (hm_get (nodes t) n)) in
      nl @ ''  '' @ node_key n @ (if a \<noteq> [] then ''  (ip: '' @ a @ '')'' else []) @ nl
      @ concat (map (\<lambda>f. ''    '' @ arrow_right @ '' '' @ flow_method f @ '' '' @ flow_path f @ '' '' @ arrow_right
           @ '' '' @ node_key (destination_node f) @ nl) (hm_vec (downstream t) n)))"

definition graph_report :: "topology \<Rightarrow> string" where
  "graph_report t =
     (if nodes t = [] then ''No services discovered yet. The cluster may not have traffic flowing.''
      else ''Service Topology ('' @ nat_str (card (node_set t)) @ '' services):'' @ nl
        @ concat (map (node_report t) (sort_key node_key (map fst (nodes t)))))"

definition calls_report :: "string \<Rightarrow> (flow \<Rightarrow> node_id) \<Rightarrow> flow list \<Rightarrow> string" where
  "calls_report arrow other fs =
     (if fs = [] then ''    (none)'' @ nl
      else concat (map (\<lambda>f. ''    '' @ arrow @ '' '' @ node_key (other f)
             @ '' ('' @ flow_method f @ '' '' @ flow_path f @ '')'' @ nl) fs))"

definition dependency_report :: "topology \<Rightarrow> node_id \<Rightarrow> string" where
  "dependency_report t n =
     ''Dependencies for '' @ node_key n @ '':'' @ nl
     @ nl @ ''  Upstream (callers):'' @ nl @ calls_report arrow_left source_node (hm_vec (upstream t) n)
     @ nl @ ''  Downstream (dependencies):'' @ nl @ calls_report arrow_right destination_node (hm_vec (downstream t) n)"

section \<open>Keys in any order\<close>

lemma mset_map_of:
  assumes "hm_ok m" and "mset m' = mset m"
  shows "hm_ok m' \<and> hm_get m' = hm_get m"
proof -
  have "mset (map fst m') = mset (map fst m)" using assms(2) by simp
  then have "hm_ok m'" using assms(1) mset_eq_imp_distinct_iff by blast
  moreover have "set m' = set m" using assms(2) by (rule mset_eq_setD)
  ultimately show ?thesis using assms(1) by (simp add: map_of_inject_set)
qed

lemma hm_keys_collect: "fst ` set (hm_collect kvs) = fst ` set kvs"
proof -
  have "k \<in> fst ` set (hm_collect kvs) \<longleftrightarrow> k \<in> fst ` set kvs" for k
    using hm_get_collect [of kvs k] map_of_eq_None_iff [of "hm_collect kvs" k] map_of_eq_None_iff [of "rev kvs" k]
    by auto
  then show ?thesis by blast
qed

lemma mset_keys_by_node_key:
  assumes "hm_ok m" and "slash_free (fst ` set m)"
  shows "mset (map fst (by_node_key g m)) = mset (map node_key (map fst m))"
proof -
  have "fst ` set (by_node_key g m) = node_key ` fst ` set m"
    by (simp add: by_node_key_def hm_keys_collect image_image case_prod_unfold)
  then have "set (map fst (by_node_key g m)) = set (map node_key (map fst m))" by (simp add: image_image)
  moreover have "distinct (map node_key (map fst m))"
    unfolding distinct_map [of node_key "map fst m"] using assms inj_node_key by simp
  moreover have "hm_ok (by_node_key g m)" by (simp add: by_node_key_def)
  ultimately show ?thesis by (simp only: set_eq_iff_mset_eq_distinct)
qed

lemma sort_map_key: "sort (map f xs) = map f (sort_key f xs)"
  by (rule properties_for_sort) simp_all

lemma sort_mset: "mset xs = mset ys \<Longrightarrow> sort xs = (sort ys :: 'a :: linorder list)"
  by (rule properties_for_sort) simp_all

section \<open>What the tools see of Core\<close>

text \<open>The graph behind an answer Core gave in a reachable state, for any decoding of the answer: its names
  are those of the graph, and a name that is the key of one service only leads to its data.\<close>

lemma decoded_names:
  fixes t :: topology
  assumes "core_inv s" and "get_topology (topo s) = Inr resp" and "same_entries resp resp'"
  defines "t \<equiv> inner (topo s)"
  shows "distinct (map fst (gt_nodes resp')) \<and> set (map fst (gt_nodes resp')) = node_key ` node_set t"
    and "slash_free (node_set t) \<Longrightarrow> mset (map fst (gt_nodes resp')) = mset (map node_key (map fst (nodes t)))"
proof -
  let ?g = "\<lambda>id d. \<lparr>tn_application_name = application_name id, tn_namespace = namespace id, tn_ip = ip d\<rparr>"
  have ok: "hm_ok (nodes t)" using assms(1) by (simp add: core_inv_def topo_inv_def mirrored_def t_def)
  have r: "gt_nodes resp = by_node_key ?g (nodes t)"
    using assms(1,2) by (auto simp: get_topology_def core_inv_def Let_def t_def)
  have m: "mset (map fst (gt_nodes resp')) = mset (map fst (gt_nodes resp))"
    using assms(3) by (simp add: same_entries_def)
  have "fst ` set (by_node_key ?g (nodes t)) = node_key ` fst ` set (nodes t)"
    by (simp add: by_node_key_def hm_keys_collect image_image case_prod_unfold)
  then have "set (map fst (gt_nodes resp')) = node_key ` node_set t"
    using mset_eq_setD [OF m] by (simp add: r node_set_def)
  moreover have "distinct (map fst (gt_nodes resp))" by (simp add: r by_node_key_def)
  then have "distinct (map fst (gt_nodes resp'))" using m mset_eq_imp_distinct_iff by blast
  ultimately show "distinct (map fst (gt_nodes resp')) \<and> set (map fst (gt_nodes resp')) = node_key ` node_set t" by simp
  show "mset (map fst (gt_nodes resp')) = mset (map node_key (map fst (nodes t)))" if "slash_free (node_set t)"
    using m mset_keys_by_node_key [OF ok, of ?g] that by (simp only: r node_set_def list.set_map)
qed

lemma decoded_answer:
  fixes t :: topology
  assumes "core_inv s" and "get_topology (topo s) = Inr resp" and "same_entries resp resp'"
  defines "t \<equiv> inner (topo s)"
  assumes "own_key (node_set t \<union> fst ` set (upstream t) \<union> fst ` set (downstream t)) n"
  shows "hm_get (gt_nodes resp') (node_key n) = map_option (\<lambda>d. \<lparr>tn_application_name = application_name n,
       tn_namespace = namespace n, tn_ip = ip d\<rparr>) (hm_get (nodes t) n)"
    and "hm_get (gt_upstream resp') (node_key n) = map_option to_flow_list (hm_get (upstream t) n)"
    and "hm_get (gt_downstream resp') (node_key n) = map_option to_flow_list (hm_get (downstream t) n)"
proof -
  have ok: "hm_ok (nodes t)" "hm_ok (upstream t)" "hm_ok (downstream t)"
    using assms(1) by (simp_all add: core_inv_def topo_inv_def mirrored_def t_def)
  have own: "own_key (fst ` set (nodes t)) n" "own_key (fst ` set (upstream t)) n" "own_key (fst ` set (downstream t)) n"
    using assms(5) by (auto simp: own_key_def node_set_def)
  have r: "gt_nodes resp = by_node_key (\<lambda>id d. \<lparr>tn_application_name = application_name id,
       tn_namespace = namespace id, tn_ip = ip d\<rparr>) (nodes t)"
    "gt_upstream resp = by_node_key (\<lambda>_ fs. to_flow_list fs) (upstream t)"
    "gt_downstream resp = by_node_key (\<lambda>_ fs. to_flow_list fs) (downstream t)"
    using assms(1,2) by (auto simp: get_topology_def core_inv_def Let_def t_def)
  have okr: "hm_ok (gt_nodes resp)" "hm_ok (gt_upstream resp)" "hm_ok (gt_downstream resp)"
    by (simp_all add: r by_node_key_def)
  have m': "mset (gt_nodes resp') = mset (gt_nodes resp)" "mset (gt_upstream resp') = mset (gt_upstream resp)"
    "mset (gt_downstream resp') = mset (gt_downstream resp)"
    using assms(3) by (simp_all add: same_entries_def)
  have get: "hm_get (gt_nodes resp') = hm_get (gt_nodes resp)" "hm_get (gt_upstream resp') = hm_get (gt_upstream resp)"
    "hm_get (gt_downstream resp') = hm_get (gt_downstream resp)"
    using mset_map_of [OF okr(1) m'(1)] mset_map_of [OF okr(2) m'(2)] mset_map_of [OF okr(3) m'(3)] by simp_all
  show "hm_get (gt_nodes resp') (node_key n) = map_option (\<lambda>d. \<lparr>tn_application_name = application_name n,
       tn_namespace = namespace n, tn_ip = ip d\<rparr>) (hm_get (nodes t) n)"
    and "hm_get (gt_upstream resp') (node_key n) = map_option to_flow_list (hm_get (upstream t) n)"
    and "hm_get (gt_downstream resp') (node_key n) = map_option to_flow_list (hm_get (downstream t) n)"
    unfolding get by (simp_all only: r get_by_node_key [OF ok(1) own(1)] get_by_node_key [OF ok(2) own(2)]
        get_by_node_key [OF ok(3) own(3)])
qed

lemma topology_edge_lines:
  "map topology_edge_line (fl_flows (to_flow_list fs)) =
     map (\<lambda>f. ''    '' @ arrow_right @ '' '' @ flow_method f @ '' '' @ flow_path f @ '' '' @ arrow_right
           @ '' '' @ node_key (destination_node f) @ nl) fs"
  by (simp add: to_flow_list_def topology_edge_line_def node_key_def)

lemma edge_lines_calls:
  "edge_lines upstream_edge_line (map_option to_flow_list v) =
     calls_report arrow_left source_node (case v of None \<Rightarrow> [] | Some fs \<Rightarrow> fs)"
  "edge_lines downstream_edge_line (map_option to_flow_list v) =
     calls_report arrow_right destination_node (case v of None \<Rightarrow> [] | Some fs \<Rightarrow> fs)"
  by (cases v; simp add: edge_lines_def calls_report_def to_flow_list_def comp_def upstream_edge_line_def
      downstream_edge_line_def node_key_def)+

text \<open>The dependency tool on an answer of Core.\<close>

lemma dependencies_answer:
  fixes input :: get_service_deps_input
  assumes inv: "core_inv s"
  defines "t \<equiv> inner (topo s)" and "n \<equiv> mk_node (gi_service input) (gi_namespace input)"
  assumes own: "own_key (node_set t \<union> fst ` set (upstream t) \<union> fst ` set (downstream t)) n"
    and "get_topology (topo s) = Inr resp" and "same_entries resp resp'"
  shows "mcp_get_service_dependencies (grpc_get_topology show_status (Inr resp')) input =
      (if n \<in> node_set t then dependency_report t n
       else ''Service '' @ [quote] @ node_key n @ [quote] @ '' not found in topology. Known services: ''
         @ str_join '', '' (map fst (gt_nodes resp')))"
proof -
  note d = decoded_answer [OF inv assms(5,6), folded t_def, OF own]
  have key: "gi_namespace input @ ''/'' @ gi_service input = node_key n" by (simp add: node_key_def n_def)
  have "hm_contains (gt_nodes resp') (node_key n) \<longleftrightarrow> n \<in> node_set t"
    by (simp only: hm_contains_get d(1) node_set_def option.map_disc_iff)
  then show ?thesis
    unfolding mcp_get_service_dependencies_def grpc_get_topology_def sum.case Let_def key
    by (simp add: d(2,3) edge_lines_calls dependency_report_def)
qed

lemma report_lists_caller:
  assumes "f \<in> set (hm_vec (upstream t) n)"
  shows "str_contains (dependency_report t n)
    (''    '' @ arrow_left @ '' '' @ node_key (source_node f) @ '' ('' @ flow_method f @ '' '' @ flow_path f @ '')'' @ nl)"
proof -
  let ?line = "\<lambda>f. ''    '' @ arrow_left @ '' '' @ node_key (source_node f) @ '' ('' @ flow_method f @ '' '' @ flow_path f @ '')'' @ nl"
  obtain us vs where "hm_vec (upstream t) n = us @ f # vs" using split_list [OF assms] by blast
  then have "calls_report arrow_left source_node (hm_vec (upstream t) n) = concat (map ?line us) @ ?line f @ concat (map ?line vs)"
    by (simp add: calls_report_def)
  then show ?thesis unfolding str_contains_iff dependency_report_def
    by (metis (no_types, lifting) append.assoc)
qed

lemma length_node_set: "hm_ok (nodes t) \<Longrightarrow> card (node_set t) = length (nodes t)"
  by (metis distinct_card length_map list.set_map node_set_def)

section \<open>Quoted values\<close>

text \<open>How ClickHouse reads a statement, as far as string literals go: a quote opens a literal; inside
  it a backslash takes the next character along, two quotes in a row stand for one, and any other
  quote closes it. The characters outside and the text of each literal as written are returned,
  or \<open>None\<close> if the statement ends inside a literal.\<close>

datatype piece = Sql char | Lit string

definition backslash :: char where
  "backslash = CHR 0x5C"

fun sql_lex :: "string option \<Rightarrow> string \<Rightarrow> piece list option" where
  "sql_lex None [] = Some []"
| "sql_lex (Some v) [] = None"
| "sql_lex None (c # s) = (if c = quote then sql_lex (Some []) s else map_option ((#) (Sql c)) (sql_lex None s))"
| "sql_lex (Some v) [c] = (if c = quote then Some [Lit v] else None)"
| "sql_lex (Some v) (c # d # s) =
     (if c = backslash then sql_lex (Some (v @ [c, d])) s
      else if c \<noteq> quote then sql_lex (Some (v @ [c])) (d # s)
      else if d = quote then sql_lex (Some (v @ [c, d])) s
      else map_option ((#) (Lit v)) (sql_lex None (d # s)))"

definition backslash_free :: "string \<Rightarrow> bool" where
  "backslash_free s \<longleftrightarrow> backslash \<notin> set s"

definition quote_free :: "string \<Rightarrow> bool" where
  "quote_free s \<longleftrightarrow> quote \<notin> set s"

lemma quote_free_append [simp]: "quote_free (a @ b) \<longleftrightarrow> quote_free a \<and> quote_free b"
  by (auto simp: quote_free_def)

lemma quote_free_Cons [simp]: "quote_free []" "quote_free (c # s) \<longleftrightarrow> c \<noteq> CHR 0x27 \<and> quote_free s"
  by (auto simp: quote_free_def quote_def)

lemma quote_free_sanitize [simp]: "quote_free (sanitize s)"
  by (simp add: sanitize_def quote_free_def replace_char_absent)

lemma sanitize_id: "quote_free s \<Longrightarrow> sanitize s = s"
  by (simp add: sanitize_def quote_free_def replace_char_id)

lemma quote_free_nat_str [simp]: "quote_free (nat_str n)"
  using digits_nat_str [of n] by (auto simp: quote_free_def quote_def list_all_iff is_digit_def)

lemma backslash_free_sanitize: "backslash_free s \<Longrightarrow> backslash_free (sanitize s)"
  by (auto simp: sanitize_def backslash_free_def replace_char_def)

lemma sanitize_append: "sanitize (a @ b) = sanitize a @ sanitize b"
  by (simp add: sanitize_def replace_char_def)

lemma lex_text: "quote_free a \<Longrightarrow> sql_lex None (a @ r) = map_option ((@) (map Sql a)) (sql_lex None r)"
  by (induction a; cases "sql_lex None r") (simp_all add: quote_def)

lemma lex_inside:
  assumes "quote_free v" and "backslash_free v" and "r \<noteq> []"
  shows "sql_lex (Some u) (v @ r) = sql_lex (Some (u @ v)) r"
  using assms
proof (induction v arbitrary: u)
  case Nil
  then show ?case by simp
next
  case (Cons c v)
  obtain d s where ds: "v @ r = d # s" using Cons.prems(3) by (cases "v @ r") auto
  have "sql_lex (Some u) (c # v @ r) = sql_lex (Some (u @ [c])) (v @ r)"
    using Cons.prems by (auto simp: ds quote_def backslash_free_def)
  then show ?case using Cons.IH [of "u @ [c]"] Cons.prems by (simp add: backslash_free_def)
qed

text \<open>A literal without quotes and backslashes ends at its closing quote.\<close>

lemma lex_literal:
  assumes "quote_free v" and "backslash_free v" and "\<nexists>r'. r = quote # r'"
  shows "sql_lex None (quote # v @ quote # r) = map_option ((#) (Lit v)) (sql_lex None r)"
  using lex_inside [OF assms(1,2), of "quote # r" "[]"] assms(3)
  by (cases r) (auto simp: quote_def backslash_def)

text \<open>A literal that ends in a backslash goes on to the next quote.\<close>

lemma lex_escaped:
  assumes "quote_free v" and "backslash_free v" and "quote_free m" and "backslash_free m" and "\<nexists>r'. r = quote # r'"
  shows "sql_lex None (quote # v @ backslash # quote # m @ quote # r) =
    map_option ((#) (Lit (v @ backslash # quote # m))) (sql_lex None r)"
proof -
  have "sql_lex None (quote # v @ backslash # quote # m @ quote # r) = sql_lex (Some (v @ [backslash, quote])) (m @ quote # r)"
    using lex_inside [OF assms(1,2), of "backslash # quote # m @ quote # r" "[]"] by simp
  also have "\<dots> = sql_lex (Some (v @ backslash # quote # m)) (quote # r)"
    using lex_inside [OF assms(3,4), of "quote # r" "v @ [backslash, quote]"] by simp
  also have "\<dots> = map_option ((#) (Lit (v @ backslash # quote # m))) (sql_lex None r)"
    using assms(5) by (cases r) (auto simp: quote_def backslash_def)
  finally show ?thesis .
qed

text \<open>A filter in a statement as it should be read: its column outside, its value a literal.\<close>

definition filter_pieces :: "string \<Rightarrow> string option \<Rightarrow> piece list" where
  "filter_pieces column v =
     (case v of None \<Rightarrow> [] | Some s \<Rightarrow> map Sql ('' AND '' @ column @ '' = '') @ [Lit (sanitize s)])"

definition filter_text :: "string \<Rightarrow> string option \<Rightarrow> string" where
  "filter_text column v = concat (map ((@) '' AND '') (filter_condition column v))"

lemma join_conditions:
  "str_join '' AND '' ([c] @ filter_condition col1 f @ filter_condition col2 g) = c @ filter_text col1 f @ filter_text col2 g"
  by (cases f; cases g) (simp_all add: filter_condition_def filter_text_def)

lemma lex_filter:
  assumes "quote_free column" and "pred_option backslash_free v" and "\<nexists>r'. r = quote # r'"
  shows "sql_lex None (filter_text column v @ r) = map_option ((@) (filter_pieces column v)) (sql_lex None r)"
proof (cases v)
  case None
  then show ?thesis
    by (cases "sql_lex None r") (simp_all add: filter_text_def filter_condition_def filter_pieces_def)
next
  case (Some s)
  let ?c = "'' AND '' @ column @ '' = ''"
  have c: "quote_free ?c" using assms(1) by simp
  have t: "filter_text column v @ r = ?c @ quote # sanitize s @ quote # r"
    by (simp add: Some filter_text_def filter_condition_def)
  have "backslash_free (sanitize s)" using assms(2) Some by (simp add: backslash_free_sanitize)
  note l = lex_literal [OF quote_free_sanitize this assms(3)]
  show ?thesis
    unfolding t lex_text [OF c] l
    by (cases "sql_lex None r") (simp_all add: Some filter_pieces_def)
qed

lemma lex_query:
  assumes "quote_free pre" "quote_free post" "quote_free col1" "quote_free col2"
    and "pred_option backslash_free f" "pred_option backslash_free g" and "post \<noteq> []"
  shows "sql_lex None (pre @ filter_text col1 f @ filter_text col2 g @ post) =
    Some (map Sql pre @ filter_pieces col1 f @ filter_pieces col2 g @ map Sql post)"
proof -
  have post: "\<nexists>r'. post = quote # r'" using assms(2) by (auto simp: quote_def)
  moreover have "\<nexists>r'. filter_text col2 g @ post = quote # r'"
    using post by (cases g) (auto simp: filter_text_def filter_condition_def quote_def)
  ultimately show ?thesis
    using lex_text [OF assms(2), of "[]"] by (simp add: lex_text [OF assms(1)] lex_filter assms)
qed

section \<open>Properties\<close>

text \<open>C40. In every reachable state of Core whose namespaces have no slash, whatever order the entries of
  the answer are decoded in, the topology tool prints the reference report of the graph: the number
  of services, then the services in the order of their keys, each with its address and exactly the
  calls the graph records from it.\<close>

theorem mcp_topology_report:
  assumes "core_reachable K to_json s"
  defines "t \<equiv> inner (topo s)"
  assumes free: "slash_free (node_set t \<union> fst ` set (upstream t) \<union> fst ` set (downstream t))"
    and "get_topology (topo s) = Inr resp" and "same_entries resp resp'"
  shows "mcp_get_topology (grpc_get_topology show_status (Inr resp')) = graph_report t"
proof -
  have inv: "core_inv s" using assms(1) by (rule core_inv_reachable)
  then have ok: "hm_ok (nodes t)" by (simp add: core_inv_def topo_inv_def mirrored_def t_def)
  have own: "own_key (node_set t \<union> fst ` set (upstream t) \<union> fst ` set (downstream t)) n" if "n \<in> node_set t" for n
    using free that by (intro slash_free_own_key) (simp add: insert_absorb)
  note d = decoded_answer [OF inv assms(4,5), folded t_def]
  have keys: "mset (map fst (gt_nodes resp')) = mset (map node_key (map fst (nodes t)))"
    by (rule decoded_names(2) [OF inv assms(4,5), folded t_def]) (rule slash_free_mono [OF free], auto)
  then have len: "length (gt_nodes resp') = length (nodes t)" by (metis length_map size_mset)
  have "sort (map fst (gt_nodes resp')) = map node_key (sort_key node_key (map fst (nodes t)))"
    using sort_mset [OF keys] by (simp only: sort_map_key)
  moreover have "topology_section resp' (node_key n) = node_report t n" if n: "n \<in> node_set t" for n
  proof -
    obtain a where a: "hm_get (nodes t) n = Some a"
      using n by (cases "hm_get (nodes t) n") (auto simp: node_set_def map_of_eq_None_iff)
    show ?thesis
      using d(1,3) [OF own [OF n]] a
      by (cases "hm_get (downstream t) n")
        (simp_all add: topology_section_def node_report_def node_key_def Let_def topology_edge_lines [unfolded node_key_def])
  qed
  ultimately have "map (topology_section resp') (sort (map fst (gt_nodes resp'))) =
      map (node_report t) (sort_key node_key (map fst (nodes t)))"
    by (simp add: node_set_def)
  then show ?thesis
    using len length_node_set [OF ok] by (auto simp: mcp_get_topology_def grpc_get_topology_def graph_report_def)
qed

theorem mcp_topology_report_witness:
  "\<exists>resp. get_topology (topo (snd (record_ebpf_event hash_caches call_a_b two_pods))) = Inr resp \<and>
     mcp_get_topology (grpc_get_topology (\<lambda>_. []) (Inr (resp\<lparr>gt_nodes := rev (gt_nodes resp)\<rparr>))) =
       graph_report (record_call call_a_b (mk_node ''svc-a'' ''default'') (mk_node ''svc-b'' ''default'') new_topology)"
proof -
  let ?s = "snd (record_ebpf_event hash_caches call_a_b two_pods)"
  obtain resp where resp: "get_topology (topo ?s) = Inr resp"
    by (simp add: sample_topology get_topology_def Let_def)
  moreover have "same_entries resp (resp\<lparr>gt_nodes := rev (gt_nodes resp)\<rparr>)" by (simp add: same_entries_def)
  moreover have "slash_free (node_set (inner (topo ?s)) \<union> fst ` set (upstream (inner (topo ?s))) \<union>
      fst ` set (downstream (inner (topo ?s))))"
    by (simp add: sample_topology sample_graph slash_free_def node_set_def)
  ultimately show ?thesis
    using mcp_topology_report [OF sample_reachable, of resp "resp\<lparr>gt_nodes := rev (gt_nodes resp)\<rparr>" "\<lambda>_. []"]
    by (auto simp: sample_topology)
qed

text \<open>C28. In every reachable state of Core, asked for a name whose key is not also that of another
  service of the graph, the dependency tool is exact: for a service of the graph it lists the
  calls recorded to it and from it, each once and in the recorded order; for any other name it
  says so and lists the keys of all services of the graph, each once. Where no namespace contains
  a slash every name qualifies; the code does not check that, and two services that share a key
  share one entry.\<close>

theorem mcp_dependencies_exact:
  fixes input :: get_service_deps_input
  assumes "core_reachable K to_json s"
  defines "t \<equiv> inner (topo s)" and "n \<equiv> mk_node (gi_service input) (gi_namespace input)"
  assumes own: "own_key (node_set t \<union> fst ` set (upstream t) \<union> fst ` set (downstream t)) n"
    and "get_topology (topo s) = Inr resp" and "same_entries resp resp'"
  shows "\<exists>ks. distinct ks \<and> set ks = node_key ` node_set t \<and>
    mcp_get_service_dependencies (grpc_get_topology show_status (Inr resp')) input =
      (if n \<in> node_set t then dependency_report t n
       else ''Service '' @ [quote] @ node_key n @ [quote] @ '' not found in topology. Known services: '' @ str_join '', '' ks)"
proof -
  have inv: "core_inv s" using assms(1) by (rule core_inv_reachable)
  note d = decoded_names(1) [OF inv assms(5,6), folded t_def]
    and a = dependencies_answer [OF inv, folded t_def, where input = input, folded n_def, OF own assms(5,6)]
  show ?thesis using d a by (intro exI [of _ "map fst (gt_nodes resp')"]) simp
qed

theorem mcp_dependencies_exact_witness:
  "\<exists>resp. get_topology (topo (snd (record_ebpf_event hash_caches call_a_b two_pods))) = Inr resp \<and>
     mcp_get_service_dependencies (grpc_get_topology (\<lambda>_. []) (Inr resp)) \<lparr>gi_service = ''svc-b'', gi_namespace = ''default''\<rparr> =
       ''Dependencies for default/svc-b:'' @ nl @ nl @ ''  Upstream (callers):'' @ nl
       @ ''    '' @ arrow_left @ '' default/svc-a (GET /api)'' @ nl
       @ nl @ ''  Downstream (dependencies):'' @ nl @ ''    (none)'' @ nl"
proof -
  let ?s = "snd (record_ebpf_event hash_caches call_a_b two_pods)"
  let ?input = "\<lparr>gi_service = ''svc-b'', gi_namespace = ''default''\<rparr>"
  obtain resp where resp: "get_topology (topo ?s) = Inr resp"
    by (simp add: sample_topology get_topology_def Let_def)
  moreover have "same_entries resp resp" by (simp add: same_entries_def)
  moreover have "own_key (node_set (inner (topo ?s)) \<union> fst ` set (upstream (inner (topo ?s))) \<union>
      fst ` set (downstream (inner (topo ?s)))) (mk_node (gi_service ?input) (gi_namespace ?input))"
    by (rule slash_free_own_key) (simp add: sample_topology sample_graph slash_free_def node_set_def)
  ultimately show ?thesis
    using mcp_dependencies_exact [OF sample_reachable, of ?input resp resp "\<lambda>_. []"]
    by (auto simp: sample_topology sample_graph node_set_def dependency_report_def calls_report_def node_key_def test_flow_def)
qed

text \<open>C17. For configured table names without a quote, and whatever filters without a backslash the assistant
  passes, ClickHouse reads the two statements as they are meant: outside the string literals stands
  the fixed text with the table and the columns of the filters given, the literals are exactly
  the filters, in order and stripped of quotes, and the statement ends outside literals. A filter without a
  quote arrives unchanged. (\<open>mcp_backslash\<close> below shows that the condition on backslashes is needed.)\<close>

theorem mcp_filters_stay_quoted:
  assumes "quote_free (cl_k8s_table ch)" and "quote_free (cl_ebpf_table ch)"
    and "pred_option backslash_free f" and "pred_option backslash_free g"
  shows "sql_lex None (k8s_events_sql ch f g minutes) = Some
      (map Sql (''SELECT event_time, resource_type, name, namespace, event_type, labels, resource_data FROM ''
         @ cl_k8s_table ch @ '' WHERE event_time >= now() - INTERVAL '' @ nat_str (unat minutes) @ '' MINUTE'')
       @ filter_pieces ''namespace'' f @ filter_pieces ''resource_type'' g
       @ map Sql '' ORDER BY event_time DESC LIMIT 100'')
    \<and> sql_lex None (network_events_sql ch f g minutes) = Some
      (map Sql (''SELECT timestamp_ns, src_service, src_namespace, dst_service, dst_namespace, src_port, dst_port, method, path, host FROM ''
         @ cl_ebpf_table ch @ '' WHERE timestamp_ns >= (toUnixTimestamp(now()) - '' @ nat_str (unat (minutes * 60)) @ '') * 1000000000'')
       @ filter_pieces ''src_service'' f @ filter_pieces ''dst_service'' g
       @ map Sql '' ORDER BY timestamp_ns DESC LIMIT 100'')
    \<and> (\<forall>v. quote_free v \<longrightarrow> sanitize v = v)"
proof -
  let ?p = "''SELECT event_time, resource_type, name, namespace, event_type, labels, resource_data FROM ''
         @ cl_k8s_table ch @ '' WHERE event_time >= now() - INTERVAL '' @ nat_str (unat minutes) @ '' MINUTE''"
  let ?q = "''SELECT timestamp_ns, src_service, src_namespace, dst_service, dst_namespace, src_port, dst_port, method, path, host FROM ''
         @ cl_ebpf_table ch @ '' WHERE timestamp_ns >= (toUnixTimestamp(now()) - '' @ nat_str (unat (minutes * 60)) @ '') * 1000000000''"
  have k: "k8s_events_sql ch f g minutes =
      ?p @ filter_text ''namespace'' f @ filter_text ''resource_type'' g @ '' ORDER BY event_time DESC LIMIT 100''"
    unfolding k8s_events_sql_def Let_def append_assoc [symmetric]
    unfolding append_assoc join_conditions by simp
  have n: "network_events_sql ch f g minutes =
      ?q @ filter_text ''src_service'' f @ filter_text ''dst_service'' g @ '' ORDER BY timestamp_ns DESC LIMIT 100''"
    unfolding network_events_sql_def Let_def append_assoc [symmetric]
    unfolding append_assoc join_conditions by simp
  have "quote_free ?p" "quote_free ?q" using assms(1,2) by simp_all
  then show ?thesis
    unfolding k n using assms(3,4) by (intro conjI allI impI lex_query sanitize_id) simp_all
qed

theorem mcp_filters_stay_quoted_witness:
  "\<exists>a b. sql_lex None (k8s_events_sql (new_ch_client \<lparr>mc_host = ''db'', mc_port = 8123, mc_user = ''u'', mc_password = ''p'',
       mc_database = ''default'', mc_ebpf_table = ''ebpf_network_events'', mc_k8s_table = ''k8s_resource_events''\<rparr>)
     (Some (''x'' @ [quote] @ '' OR 1=1'')) None 60) = Some (map Sql a @ [Lit ''x OR 1=1''] @ map Sql b)"
proof -
  let ?f = "''x'' @ [quote] @ '' OR 1=1''"
  let ?ch = "new_ch_client \<lparr>mc_host = ''db'', mc_port = 8123, mc_user = ''u'', mc_password = ''p'',
       mc_database = ''default'', mc_ebpf_table = ''ebpf_network_events'', mc_k8s_table = ''k8s_resource_events''\<rparr>"
  have f: "sanitize ?f = ''x OR 1=1''" by code_simp
  have "\<exists>a c. sql_lex None (k8s_events_sql ?ch (Some ?f) None 60) = Some (map Sql a
       @ filter_pieces ''namespace'' (Some ?f) @ filter_pieces ''resource_type'' None @ map Sql c)"
    by (intro exI, rule mcp_filters_stay_quoted [THEN conjunct1])
      (simp_all add: new_ch_client_def backslash_free_def backslash_def quote_def)
  then obtain a c where "sql_lex None (k8s_events_sql ?ch (Some ?f) None 60) = Some (map Sql a
       @ filter_pieces ''namespace'' (Some ?f) @ filter_pieces ''resource_type'' None @ map Sql c)"
    by blast
  then show ?thesis unfolding filter_pieces_def option.case f
    by (intro exI [of _ "a @ '' AND '' @ ''namespace'' @ '' = ''"] exI [of _ c]) simp
qed

text \<open>A first filter that ends in a backslash takes the condition up to the next quote into its literal,
  and the second filter is read as SQL.\<close>

lemma mcp_backslash:
  assumes "quote_free (cl_k8s_table ch)" and "backslash_free v" and "sanitize w \<noteq> []"
  shows "sql_lex None (k8s_events_sql ch (Some (v @ [backslash])) (Some w) minutes) =
    map_option ((@) (map Sql (''SELECT event_time, resource_type, name, namespace, event_type, labels, resource_data FROM ''
         @ cl_k8s_table ch @ '' WHERE event_time >= now() - INTERVAL '' @ nat_str (unat minutes) @ '' MINUTE AND namespace = '')
       @ Lit (sanitize v @ backslash # quote # '' AND resource_type = '') # map Sql (sanitize w)))
      (sql_lex None (quote # '' ORDER BY event_time DESC LIMIT 100''))"
proof -
  let ?p = "''SELECT event_time, resource_type, name, namespace, event_type, labels, resource_data FROM ''
         @ cl_k8s_table ch @ '' WHERE event_time >= now() - INTERVAL '' @ nat_str (unat minutes) @ '' MINUTE AND namespace = ''"
  let ?r = "quote # '' ORDER BY event_time DESC LIMIT 100''"
  have "sanitize (v @ [backslash]) = sanitize v @ [backslash]"
    unfolding sanitize_append by (simp add: sanitize_def replace_char_def backslash_def quote_def)
  then have k: "k8s_events_sql ch (Some (v @ [backslash])) (Some w) minutes =
      ?p @ quote # sanitize v @ backslash # quote # '' AND resource_type = '' @ quote # sanitize w @ ?r"
    by (simp add: k8s_events_sql_def filter_condition_def)
  have p: "quote_free ?p" using assms(1) by simp
  have "\<nexists>r'. sanitize w @ ?r = quote # r'"
    using assms(3) quote_free_sanitize [of w] by (cases "sanitize w") (auto simp: quote_free_def)
  moreover have "quote_free '' AND resource_type = ''" "backslash_free '' AND resource_type = ''"
    by (simp_all add: backslash_free_def backslash_def)
  ultimately have l: "sql_lex None (quote # sanitize v @ backslash # quote # '' AND resource_type = '' @ quote # sanitize w @ ?r) =
      map_option ((#) (Lit (sanitize v @ backslash # quote # '' AND resource_type = ''))) (sql_lex None (sanitize w @ ?r))"
    using backslash_free_sanitize [OF assms(2)] quote_free_sanitize by (intro lex_escaped)
  show ?thesis
    unfolding k lex_text [OF p] l lex_text [OF quote_free_sanitize [of w]]
    by (cases "sql_lex None ?r") (simp_all only: option.map append.simps append_assoc)
qed

text \<open>The look-back of the network query is exact up to 71582788 minutes; beyond, the product wraps and
  the window shrinks.\<close>

lemma network_window:
  "unat (minutes :: u32) \<le> 71582788 \<Longrightarrow> unat (minutes * 60) = unat minutes * 60"
  "unat (71582789 * 60 :: u32) = 44"
  by (simp_all add: unat_word_ariths)

end
