(* ===== verification/Capture.thy ===== *)
theory Capture
  imports Grpc_Server
begin

unbundle bit_operations_syntax

text \<open>
  The capture side: the socket filter of \<^verbatim>\<open>ebpf/src/main.rs\<close>, the event layout
  and HTTP parsing of \<^verbatim>\<open>ebpf-common/src/lib.rs\<close>, and the event handling of
  \<^verbatim>\<open>ebpf-loader/src/loader/ebpf_loader.rs\<close> and
  \<^verbatim>\<open>ebpf-loader/src/service/qubit_aggregator.rs\<close>. The socket buffer the kernel
  hands to the filter is a parameter, a record of the calls the filter makes, and
  \<open>skb_laws\<close> says that they read the packet.
\<close>

section \<open>Bytes\<close>

text \<open>Little-endian layout, that of the eBPF target and of the hosts of the loader.\<close>

fun le_nat :: "u8 list \<Rightarrow> nat" where
  "le_nat [] = 0"
| "le_nat (b # bs) = unat b + 256 * le_nat bs"

fun le_bytes :: "nat \<Rightarrow> nat \<Rightarrow> u8 list" where
  "le_bytes 0 x = []"
| "le_bytes (Suc n) x = of_nat x # le_bytes n (x div 256)"

definition u16_from_be :: "u16 \<Rightarrow> u16" where
  "u16_from_be w = of_nat (unat w mod 256 * 256 + unat w div 256)"

text \<open>\<open>slice.windows(n).position(p)\<close>: the windows of exactly \<open>n\<close> elements.\<close>

fun window_position :: "nat \<Rightarrow> ('a list \<Rightarrow> bool) \<Rightarrow> 'a list \<Rightarrow> nat option" where
  "window_position n P [] = None"
| "window_position n P (x # xs) =
     (if length (x # xs) < n then None
      else if P (take n (x # xs)) then Some 0
      else map_option Suc (window_position n P xs))"

definition to_ascii_lower :: "u8 \<Rightarrow> u8" where
  "to_ascii_lower b = (if 65 \<le> b \<and> b \<le> 90 then b + 32 else b)"

definition eq_ignore_ascii_case :: "u8 list \<Rightarrow> u8 list \<Rightarrow> bool" where
  "eq_ignore_ascii_case xs ys \<longleftrightarrow> map to_ascii_lower xs = map to_ascii_lower ys"

text \<open>\<open>core::str::from_utf8\<close>: the well-formed byte sequences of the Unicode standard.\<close>

definition utf8_cont :: "u8 \<Rightarrow> bool" where
  "utf8_cont b \<longleftrightarrow> 0x80 \<le> b \<and> b \<le> 0xBF"

fun utf8_valid :: "u8 list \<Rightarrow> bool" where
  "utf8_valid [] = True"
| "utf8_valid (b # bs) =
     (if b < 0x80 then utf8_valid bs
      else if 0xC2 \<le> b \<and> b \<le> 0xDF then
        (case bs of c1 # r \<Rightarrow> utf8_cont c1 \<and> utf8_valid r | _ \<Rightarrow> False)
      else if 0xE0 \<le> b \<and> b \<le> 0xEF then
        (case bs of c1 # c2 # r \<Rightarrow>
            utf8_cont c1 \<and> utf8_cont c2 \<and> (b = 0xE0 \<longrightarrow> 0xA0 \<le> c1) \<and> (b = 0xED \<longrightarrow> c1 \<le> 0x9F) \<and> utf8_valid r
         | _ \<Rightarrow> False)
      else if 0xF0 \<le> b \<and> b \<le> 0xF4 then
        (case bs of c1 # c2 # c3 # r \<Rightarrow>
            utf8_cont c1 \<and> utf8_cont c2 \<and> utf8_cont c3 \<and> (b = 0xF0 \<longrightarrow> 0x90 \<le> c1) \<and> (b = 0xF4 \<longrightarrow> c1 \<le> 0x8F) \<and>
            utf8_valid r
         | _ \<Rightarrow> False)
      else False)"

definition bytes_str :: "u8 list \<Rightarrow> string" where
  "bytes_str bs = map (\<lambda>b. char_of (unat b)) bs"

definition str_bytes :: "string \<Rightarrow> u8 list" where
  "str_bytes s = map (\<lambda>c. of_nat (of_char c)) s"

definition from_utf8 :: "u8 list \<Rightarrow> string option" where
  "from_utf8 bs = (if utf8_valid bs then Some (bytes_str bs) else None)"

section \<open>The socket filter\<close>

text \<open>\<open>ctx.load::<u8/u16/u32>(off)\<close>, \<open>ctx.len()\<close> and \<open>bpf_skb_load_bytes(ctx, off, buf, len)\<close>.\<close>

record skb =
  skb_load8 :: "nat \<Rightarrow> u8 option"
  skb_load16 :: "nat \<Rightarrow> u16 option"
  skb_load32 :: "nat \<Rightarrow> u32 option"
  skb_len :: u32
  skb_load_bytes :: "u32 \<Rightarrow> u32 \<Rightarrow> u8 list option"

record kernel_event =
  k_timestamp_ns :: u64
  k_src_ip :: u32
  k_dst_ip :: u32
  k_src_port :: u16
  k_dst_port :: u16
  k_payload_len :: u16
  k_padding :: u16
  k_payload :: "u8 list"

definition kernel_max_payload :: nat where
  "kernel_max_payload = 1024"

text \<open>The result, and the events put into the perf array. \<open>load_or_err\<close> is
  \<open>ctx.load(..).map_err(|_| 0i64)?\<close>.\<close>

type_synonym filter_result = "(64 word, 64 word) rust_result \<times> kernel_event list"

definition load_or_err :: "'a option \<Rightarrow> ('a \<Rightarrow> filter_result) \<Rightarrow> filter_result" where
  "load_or_err x k = (case x of None \<Rightarrow> (Inl 0, []) | Some v \<Rightarrow> k v)"

definition try_http_filter :: "u64 \<Rightarrow> skb \<Rightarrow> filter_result" where
  "try_http_filter now ctx =
    load_or_err (skb_load16 ctx 12) (\<lambda>eth_proto_be.
     if u16_from_be eth_proto_be \<noteq> 0x0800 then (Inr 0, []) else
    load_or_err (skb_load8 ctx 23) (\<lambda>ip_proto.
     if ip_proto \<noteq> 6 then (Inr 0, []) else
    load_or_err (skb_load8 ctx 14) (\<lambda>ip_ihl.
     let tcp_start = 14 + unat (ip_ihl AND 0x0F) * 4 in
    load_or_err (skb_load16 ctx (tcp_start + 2)) (\<lambda>dst_port_be.
     let dport = u16_from_be dst_port_be in
     if dport \<noteq> 80 \<and> dport \<noteq> 8080 then (Inr 0, []) else
    load_or_err (skb_load16 ctx tcp_start) (\<lambda>src_port_be.
    load_or_err (skb_load8 ctx (tcp_start + 12)) (\<lambda>tcp_data_off.
     let payload_offset = tcp_start + unat (drop_bit 4 tcp_data_off) * 4;
         pkt_len = unat (skb_len ctx) in
     if pkt_len \<le> payload_offset then (Inr 0, []) else
     let avail = pkt_len - payload_offset;
         copy_len = (if avail < kernel_max_payload then avail else kernel_max_payload) in
     if copy_len = 0 \<or> kernel_max_payload < copy_len then (Inr 0, []) else
    load_or_err (skb_load8 ctx payload_offset) (\<lambda>first_byte.
     if \<not> (65 \<le> first_byte \<and> first_byte \<le> 90) then (Inr 0, []) else
    load_or_err (skb_load32 ctx 26) (\<lambda>s_ip.
    load_or_err (skb_load32 ctx 30) (\<lambda>d_ip.
     (case skb_load_bytes ctx (of_nat payload_offset) (of_nat copy_len) of
        None \<Rightarrow> (Inr 0, [])
      | Some bytes \<Rightarrow>
         (Inr 0, [\<lparr>k_timestamp_ns = now, k_src_ip = s_ip, k_dst_ip = d_ip,
                   k_src_port = u16_from_be src_port_be, k_dst_port = dport,
                   k_payload_len = of_nat copy_len, k_padding = 0,
                   k_payload = bytes @ replicate (kernel_max_payload - length bytes) 0\<rparr>])))))))))))"

definition http_filter :: "u64 \<Rightarrow> skb \<Rightarrow> 64 word \<times> kernel_event list" where
  "http_filter now ctx =
     (case try_http_filter now ctx of (Inr ret, evs) \<Rightarrow> (ret, evs) | (Inl _, evs) \<Rightarrow> (0, evs))"

text \<open>The bytes of the event as the filter hands them to the perf array (\<open>repr(C)\<close>, no gaps).\<close>

definition event_bytes :: "kernel_event \<Rightarrow> u8 list" where
  "event_bytes e =
     le_bytes 8 (unat (k_timestamp_ns e)) @ le_bytes 4 (unat (k_src_ip e)) @ le_bytes 4 (unat (k_dst_ip e)) @
     le_bytes 2 (unat (k_src_port e)) @ le_bytes 2 (unat (k_dst_port e)) @ le_bytes 2 (unat (k_payload_len e)) @
     le_bytes 2 (unat (k_padding e)) @ k_payload e"

section \<open>Events in user space\<close>

definition max_payload :: nat where
  "max_payload = 128"

record tcp_payload_event =
  tp_timestamp_ns :: u64
  tp_src_ip :: u32
  tp_dst_ip :: u32
  tp_src_port :: u16
  tp_dst_port :: u16
  tp_payload_len :: u16
  tp_padding :: u16
  tp_payload :: "u8 list"

definition payload_bytes :: "tcp_payload_event \<Rightarrow> u8 list" where
  "payload_bytes e = take (min (unat (tp_payload_len e)) (length (tp_payload e))) (tp_payload e)"

definition parse_method :: "tcp_payload_event \<Rightarrow> string option" where
  "parse_method e =
     (let payload = payload_bytes e in
      case position (\<lambda>b. b = 0x20) payload of
        None \<Rightarrow> None
      | Some space_pos \<Rightarrow> from_utf8 (take space_pos payload))"

definition parse_path :: "tcp_payload_event \<Rightarrow> string option" where
  "parse_path e =
     (let payload = payload_bytes e in
      case position (\<lambda>b. b = 0x20) payload of
        None \<Rightarrow> None
      | Some first_space \<Rightarrow>
          let rest = drop (first_space + 1) payload;
              second_space = (case position (\<lambda>b. b = 0x20) rest of None \<Rightarrow> length rest | Some i \<Rightarrow> i)
          in from_utf8 (take second_space rest))"

definition parse_host :: "tcp_payload_event \<Rightarrow> string option" where
  "parse_host e =
     (let payload = payload_bytes e in
      case window_position 5 (\<lambda>w. eq_ignore_ascii_case w (str_bytes ''Host:'')) payload of
        None \<Rightarrow> None
      | Some host_pos \<Rightarrow>
          let after_host = drop (host_pos + 5) payload in
          case position (\<lambda>b. b \<noteq> 0x20 \<and> b \<noteq> 0x09) after_host of
            None \<Rightarrow> None
          | Some start \<Rightarrow>
              let v = drop start after_host;
                  fin = (case position (\<lambda>b. b = 0x0D \<or> b = 0x0A) v of None \<Rightarrow> length v | Some i \<Rightarrow> i)
              in map_option (before_char (CHR '':'')) (from_utf8 (take fin v)))"

section \<open>The loader\<close>

text \<open>\<open>read_unaligned\<close> of the struct at the start of the buffer.\<close>

definition event_size :: nat where
  "event_size = 24 + max_payload"

definition read_event :: "u8 list \<Rightarrow> tcp_payload_event" where
  "read_event buf =
     \<lparr>tp_timestamp_ns = of_nat (le_nat (take 8 buf)), tp_src_ip = of_nat (le_nat (take 4 (drop 8 buf))),
      tp_dst_ip = of_nat (le_nat (take 4 (drop 12 buf))), tp_src_port = of_nat (le_nat (take 2 (drop 16 buf))),
      tp_dst_port = of_nat (le_nat (take 2 (drop 18 buf))), tp_payload_len = of_nat (le_nat (take 2 (drop 20 buf))),
      tp_padding = of_nat (le_nat (take 2 (drop 22 buf))), tp_payload = take max_payload (drop 24 buf)\<rparr>"

record loader_event =
  le_timestamp_ns :: u64
  le_src_ip :: u32
  le_dst_ip :: u32
  le_src_port :: u16
  le_dst_port :: u16
  le_method :: string
  le_path :: string
  le_host :: string

text \<open>\<open>QubitAggregator::record_ebpf_event\<close>: the request it sends.\<close>

definition loader_request :: "loader_event \<Rightarrow> ebpf_network_event_request" where
  "loader_request e =
     \<lparr>rq_timestamp_ns = le_timestamp_ns e, rq_src_ip = le_src_ip e, rq_dst_ip = le_dst_ip e,
      rq_src_port = ucast (le_src_port e), rq_dst_port = ucast (le_dst_port e),
      rq_method = le_method e, rq_path = le_path e, rq_host = le_host e\<rparr>"

definition unwrap_or_default :: "string option \<Rightarrow> string" where
  "unwrap_or_default x = (case x of None \<Rightarrow> [] | Some s \<Rightarrow> s)"

text \<open>The request sent for a buffer of the perf array, if any; a failed send is only logged.\<close>

definition handle_tcp_event :: "u8 list \<Rightarrow> ebpf_network_event_request option" where
  "handle_tcp_event buf =
     (if length buf < event_size then None
      else
        let e = read_event buf;
            meth = unwrap_or_default (parse_method e);
            pth = unwrap_or_default (parse_path e);
            hst = unwrap_or_default (parse_host e)
        in if meth = [] then None
           else Some (loader_request
             \<lparr>le_timestamp_ns = tp_timestamp_ns e, le_src_ip = tp_src_ip e, le_dst_ip = tp_dst_ip e,
              le_src_port = tp_src_port e, le_dst_port = tp_dst_port e,
              le_method = meth, le_path = pth, le_host = hst\<rparr>))"

text \<open>One round of \<open>process_events\<close> on the \<open>read\<close> buffers that were filled.\<close>

definition process_batch :: "nat \<Rightarrow> u8 list list \<Rightarrow> ebpf_network_event_request list" where
  "process_batch n_read buffers = List.map_filter handle_tcp_event (take n_read buffers)"

section \<open>The packet behind the buffer\<close>

definition skb_laws :: "skb \<Rightarrow> u8 list \<Rightarrow> bool" where
  "skb_laws ctx pkt \<longleftrightarrow>
     length pkt < 2 ^ 32 \<and> skb_len ctx = of_nat (length pkt) \<and>
     (\<forall>i. skb_load8 ctx i = (if i < length pkt then Some (pkt ! i) else None)) \<and>
     (\<forall>i. skb_load16 ctx i = (if i + 2 \<le> length pkt then Some (of_nat (le_nat (take 2 (drop i pkt)))) else None)) \<and>
     (\<forall>i. skb_load32 ctx i = (if i + 4 \<le> length pkt then Some (of_nat (le_nat (take 4 (drop i pkt)))) else None)) \<and>
     (\<forall>i n. skb_load_bytes ctx i n =
        (if unat i + unat n \<le> length pkt then Some (take (unat n) (drop (unat i) pkt)) else None))"

definition skb_of :: "u8 list \<Rightarrow> skb" where
  "skb_of pkt =
     \<lparr>skb_load8 = (\<lambda>i. if i < length pkt then Some (pkt ! i) else None),
      skb_load16 = (\<lambda>i. if i + 2 \<le> length pkt then Some (of_nat (le_nat (take 2 (drop i pkt)))) else None),
      skb_load32 = (\<lambda>i. if i + 4 \<le> length pkt then Some (of_nat (le_nat (take 4 (drop i pkt)))) else None),
      skb_len = of_nat (length pkt),
      skb_load_bytes = (\<lambda>i n. if unat i + unat n \<le> length pkt
                               then Some (take (unat n) (drop (unat i) pkt)) else None)\<rparr>"

text \<open>Header fields by their place in the packet: big-endian ports, header lengths.\<close>

definition tcp_start_of :: "u8 list \<Rightarrow> nat" where
  "tcp_start_of pkt = 14 + unat (pkt ! 14) mod 16 * 4"

definition payload_start_of :: "u8 list \<Rightarrow> nat" where
  "payload_start_of pkt = tcp_start_of pkt + unat (pkt ! (tcp_start_of pkt + 12)) div 16 * 4"

definition be16_at :: "nat \<Rightarrow> u8 list \<Rightarrow> nat" where
  "be16_at i pkt = unat (pkt ! i) * 256 + unat (pkt ! Suc i)"

text \<open>A request segment: IPv4, TCP, to port 80 or 8080, with a payload that begins with a capital letter.\<close>

definition http_segment :: "u8 list \<Rightarrow> bool" where
  "http_segment pkt \<longleftrightarrow>
     tcp_start_of pkt + 12 < length pkt \<and> 34 \<le> length pkt \<and>
     be16_at 12 pkt = 0x0800 \<and> pkt ! 23 = 6 \<and>
     be16_at (tcp_start_of pkt + 2) pkt \<in> {80, 8080} \<and>
     payload_start_of pkt < length pkt \<and>
     65 \<le> unat (pkt ! payload_start_of pkt) \<and> unat (pkt ! payload_start_of pkt) \<le> 90"

text \<open>A request from 10.0.0.1 port 4000 to 10.0.0.2 port 80.\<close>

definition sample_packet :: "u8 list" where
  "sample_packet = replicate 12 0 @ [8, 0] @ [0x45, 0, 0, 0, 0, 0, 0, 0, 64, 6, 0, 0] @ [10, 0, 0, 1] @ [10, 0, 0, 2] @
     [0x0F, 0xA0, 0, 80] @ replicate 8 0 @ [0x50] @ replicate 7 0 @
     str_bytes ''GET /api HTTP/1.1'' @ [0x0D, 0x0A] @ str_bytes ''Host: svc-b:80'' @ [0x0D, 0x0A, 0x0D, 0x0A]"

text \<open>What the filter reports of such a packet.\<close>

definition captured :: "u64 \<Rightarrow> u8 list \<Rightarrow> kernel_event" where
  "captured now pkt =
     (let ps = payload_start_of pkt; n = min (length pkt - ps) 1024 in
      \<lparr>k_timestamp_ns = now, k_src_ip = of_nat (le_nat (take 4 (drop 26 pkt))),
       k_dst_ip = of_nat (le_nat (take 4 (drop 30 pkt))),
       k_src_port = of_nat (be16_at (tcp_start_of pkt) pkt), k_dst_port = of_nat (be16_at (tcp_start_of pkt + 2) pkt),
       k_payload_len = of_nat n, k_padding = 0,
       k_payload = take n (drop ps pkt) @ replicate (1024 - n) 0\<rparr>)"

section \<open>Facts about bytes\<close>

lemma length_le_bytes [simp]: "length (le_bytes n x) = n"
  by (induction n arbitrary: x) simp_all

lemma le_nat_bytes: "le_nat (le_bytes n x) = x mod 256 ^ n"
proof (induction n arbitrary: x)
  case (Suc n)
  have "unat (of_nat x :: u8) = x mod 256" by (simp add: unsigned_of_nat take_bit_eq_mod)
  then show ?case using Suc [of "x div 256"] by (simp add: mod_mult2_eq)
qed simp

lemma le_nat_word [simp]:
  "of_nat (le_nat (le_bytes 8 (unat (a :: u64)))) = a" "of_nat (le_nat (le_bytes 4 (unat (b :: u32)))) = b"
  "of_nat (le_nat (le_bytes 2 (unat (c :: u16)))) = c"
  using unsigned_less [of a, where 'a = nat] unsigned_less [of b, where 'a = nat] unsigned_less [of c, where 'a = nat]
  by (simp_all add: le_nat_bytes)

lemma read_event_bytes:
  "read_event (event_bytes e) =
     \<lparr>tp_timestamp_ns = k_timestamp_ns e, tp_src_ip = k_src_ip e, tp_dst_ip = k_dst_ip e,
      tp_src_port = k_src_port e, tp_dst_port = k_dst_port e, tp_payload_len = k_payload_len e,
      tp_padding = k_padding e, tp_payload = take 128 (k_payload e)\<rparr>"
  by (simp add: read_event_def event_bytes_def max_payload_def)

lemma length_event_bytes [simp]: "length (event_bytes e) = 24 + length (k_payload e)"
  by (simp add: event_bytes_def)

lemma take_two: "Suc i < length xs \<Longrightarrow> take 2 (drop i xs) = [xs ! i, xs ! Suc i]"
  by (simp add: numeral_2_eq_2 take_Suc_conv_app_nth)

lemma take_four: "i + 4 \<le> length xs \<Longrightarrow> take 4 (drop i xs) = [xs ! i, xs ! (i + 1), xs ! (i + 2), xs ! (i + 3)]"
  by (simp add: eval_nat_numeral take_Suc_conv_app_nth)

lemma unat_u8: "unat (b :: u8) < 256"
  using unsigned_less [of b, where 'a = nat] by simp

lemma be16_bound: "be16_at i pkt < 65536"
  using unat_u8 [of "pkt ! i"] unat_u8 [of "pkt ! Suc i"] by (simp add: be16_at_def)

lemma load16_be: "i + 2 \<le> length pkt \<Longrightarrow> u16_from_be (of_nat (le_nat (take 2 (drop i pkt)))) = of_nat (be16_at i pkt)"
proof -
  assume i: "i + 2 \<le> length pkt"
  let ?a = "unat (pkt ! i)" and ?b = "unat (pkt ! Suc i)"
  have "?a + 256 * ?b < 2 ^ 16" using unat_u8 [of "pkt ! i"] unat_u8 [of "pkt ! Suc i"] by simp
  then have n: "unat (of_nat (?a + 256 * ?b) :: u16) = ?a + 256 * ?b"
    by (simp only: unsigned_of_nat) (simp add: take_bit_nat_eq_self)
  have "(?a + 256 * ?b) mod 256 = ?a" "(?a + 256 * ?b) div 256 = ?b"
    using unat_u8 [of "pkt ! i"] by simp_all
  then show ?thesis
    using i by (simp only: take_two u16_from_be_def le_nat.simps be16_at_def n Suc_le_eq [symmetric] mult_0_right add_0_right)
qed

lemma load32_be:
  assumes "i + 4 \<le> length pkt"
  shows "octets (u32_from_be (of_nat (le_nat (take 4 (drop i pkt))))) =
    (unat (pkt ! i), unat (pkt ! (i + 1)), unat (pkt ! (i + 2)), unat (pkt ! (i + 3)))"
proof -
  let ?a = "unat (pkt ! i)" and ?b = "unat (pkt ! (i + 1))" and ?c = "unat (pkt ! (i + 2))" and ?d = "unat (pkt ! (i + 3))"
  have "of_nat (le_nat (take 4 (drop i pkt))) = u32_of_octets (?d, ?c, ?b, ?a)"
    by (simp add: take_four [OF assms] u32_of_octets_def algebra_simps)
  then show ?thesis by (simp add: u32_from_be_octets octets_u32_of_octets unat_u8)
qed

lemma low_nibble: "unat (b AND 0x0F :: u8) = unat b mod 16"
proof -
  have "b AND 0x0F = take_bit 4 b" by (simp add: take_bit_eq_mask mask_eq_exp_minus_1)
  then show ?thesis by (simp add: take_bit_eq_mod unat_mod_distrib)
qed

lemma high_nibble: "unat (drop_bit 4 b :: u8) = unat b div 16"
  by (simp add: drop_bit_eq_div unat_div_distrib)

section \<open>The filter on a packet\<close>

lemma load_or_err_if: "load_or_err (if c then Some v else None) k = (if c then k v else (Inl 0, []))"
  by (simp add: load_or_err_def)

lemma port_eq:
  assumes "n < 65536"
  shows "(of_nat n :: u16) = 80 \<longleftrightarrow> n = 80" "(of_nat n :: u16) = 8080 \<longleftrightarrow> n = 8080" "(of_nat n :: u16) = 0x0800 \<longleftrightarrow> n = 0x0800"
proof -
  have "(of_nat n :: u16) = of_nat m \<longleftrightarrow> n = m" if "m < 65536" for m
    using assms that by (simp add: word_of_nat_eq_iff take_bit_nat_eq_self)
  from this [of 80] this [of 8080] this [of "0x0800"]
  show "(of_nat n :: u16) = 80 \<longleftrightarrow> n = 80" "(of_nat n :: u16) = 8080 \<longleftrightarrow> n = 8080" "(of_nat n :: u16) = 0x0800 \<longleftrightarrow> n = 0x0800"
    by simp_all
qed

lemma skb_loads:
  assumes "skb_laws ctx pkt"
  shows "unat (skb_len ctx) = length pkt"
    and "skb_load8 ctx i = (if i < length pkt then Some (pkt ! i) else None)"
    and "skb_load16 ctx i = (if i + 2 \<le> length pkt then Some (of_nat (le_nat (take 2 (drop i pkt)))) else None)"
    and "skb_load32 ctx i = (if i + 4 \<le> length pkt then Some (of_nat (le_nat (take 4 (drop i pkt)))) else None)"
    and "p + n \<le> length pkt \<Longrightarrow> skb_load_bytes ctx (of_nat p) (of_nat n) = Some (take n (drop p pkt))"
  using assms by (simp_all add: skb_laws_def unat_of_nat_u32)

lemma letter_range: "(65 \<le> b \<and> b \<le> (90 :: u8)) \<longleftrightarrow> 65 \<le> unat b \<and> unat b \<le> 90"
  by (simp add: word_le_nat_alt)

text \<open>Past the last guard the copy never fails and has the captured bytes.\<close>

lemma filter_captures:
  assumes laws: "skb_laws ctx pkt" and seg: "http_segment pkt"
  shows "try_http_filter now ctx = (Inr 0, [captured now pkt])"
proof -
  let ?ts = "tcp_start_of pkt" and ?ps = "payload_start_of pkt"
  let ?n = "if length pkt - ?ps < 1024 then length pkt - ?ps else 1024"
  have len: "?ts + 12 < length pkt" "34 \<le> length pkt" "?ps < length pkt" "14 \<le> ?ts"
    using seg by (simp_all add: http_segment_def tcp_start_of_def)
  have ports: "(of_nat (be16_at (?ts + 2) pkt) :: u16) = 80 \<or> (of_nat (be16_at (?ts + 2) pkt) :: u16) = 8080"
    using seg by (auto simp: http_segment_def)
  have n: "?n = min (length pkt - ?ps) 1024" "0 < ?n" "?n \<le> 1024" using len(3) by auto
  have ld: "skb_load_bytes ctx (of_nat ?ps) (of_nat ?n) = Some (take ?n (drop ?ps pkt))"
    by (rule skb_loads(5) [OF laws]) (use len(3) in auto)
  have ts: "14 + unat (pkt ! 14 AND 0x0F) * 4 = ?ts" by (simp add: low_nibble tcp_start_of_def)
  have ps: "?ts + unat (drop_bit 4 (pkt ! (?ts + 12))) * 4 = ?ps" by (simp add: high_nibble payload_start_of_def)
  have "length (take ?n (drop ?ps pkt)) = ?n" by auto
  then show ?thesis
    using seg ports len n(2,3) ld
    unfolding try_http_filter_def skb_loads(1-4) [OF laws] load_or_err_if Let_def ts ps kernel_max_payload_def
    by (simp add: load16_be port_eq be16_bound http_segment_def letter_range captured_def Let_def n(1) min_def)
qed

lemma filter_ignores:
  assumes laws: "skb_laws ctx pkt" and out: "snd (try_http_filter now ctx) \<noteq> []"
  shows "http_segment pkt"
proof -
  have ts: "14 + unat (pkt ! 14 AND 0x0F) * 4 = tcp_start_of pkt" by (simp add: low_nibble tcp_start_of_def)
  have ps: "tcp_start_of pkt + unat (drop_bit 4 (pkt ! (tcp_start_of pkt + 12))) * 4 = payload_start_of pkt"
    by (simp add: high_nibble payload_start_of_def)
  show ?thesis
    using out
    unfolding try_http_filter_def skb_loads(1-4) [OF laws] load_or_err_if Let_def ts ps
    by (auto simp: http_segment_def load16_be port_eq be16_bound letter_range split: if_splits)
qed

lemma http_filter_packet:
  "skb_laws ctx pkt \<Longrightarrow> http_filter now ctx = (0, if http_segment pkt then [captured now pkt] else [])"
proof -
  assume laws: "skb_laws ctx pkt"
  have "fst (try_http_filter now ctx) \<in> {Inl 0, Inr 0}"
    by (simp add: try_http_filter_def load_or_err_def Let_def split: option.split)
  then have ret: "http_filter now ctx = (0, snd (try_http_filter now ctx))"
    by (cases "try_http_filter now ctx") (auto simp: http_filter_def)
  show ?thesis
  proof (cases "http_segment pkt")
    case True
    then show ?thesis using ret filter_captures [OF laws] by simp
  next
    case False
    then show ?thesis using ret filter_ignores [OF laws, of now] by auto
  qed
qed

lemma length_captured [simp]: "length (k_payload (captured now pkt)) = 1024"
  by (simp add: captured_def Let_def)

lemma unat_of_nat_u16: "n < 65536 \<Longrightarrow> unat (of_nat n :: u16) = n"
  by (simp add: unsigned_of_nat take_bit_nat_eq_self)

lemma captured_len: "unat (k_payload_len (captured now pkt)) = min (length pkt - payload_start_of pkt) 1024"
  unfolding captured_def Let_def by (simp add: unat_of_nat_u16)

lemma captured_bytes:
  "k_payload (captured now pkt) = take 1024 (drop (payload_start_of pkt) pkt) @
     replicate (1024 - min (length pkt - payload_start_of pkt) 1024) 0"
proof -
  have "take (min (length pkt - payload_start_of pkt) 1024) (drop (payload_start_of pkt) pkt) =
      take 1024 (drop (payload_start_of pkt) pkt)"
    by (cases "length pkt - payload_start_of pkt \<le> 1024") (simp_all add: min_absorb1 min_absorb2)
  then show ?thesis unfolding captured_def Let_def by simp
qed

lemma captured_payload: "payload_bytes (read_event (event_bytes (captured now pkt))) = take 128 (drop (payload_start_of pkt) pkt)"
proof -
  let ?xs = "drop (payload_start_of pkt) pkt"
  have "take (min (min (length ?xs) 1024) 128) (take 1024 ?xs @ zs) = take 128 ?xs" for zs
    by (cases "length ?xs \<le> 128") (simp_all add: min_def)
  then have "take (min (min (length ?xs) 1024) 128) (k_payload (captured now pkt)) = take 128 ?xs"
    unfolding captured_bytes .
  moreover have "length (take 128 (k_payload (captured now pkt))) = 128" by simp
  ultimately show ?thesis
    unfolding payload_bytes_def read_event_bytes tcp_payload_event.select_convs captured_len
    by (simp only: take_take length_drop min.commute min.left_commute min.idem) (simp add: min.assoc)
qed

lemma captured_fields:
  "tp_src_ip (read_event (event_bytes (captured now pkt))) = of_nat (le_nat (take 4 (drop 26 pkt)))"
  "tp_dst_ip (read_event (event_bytes (captured now pkt))) = of_nat (le_nat (take 4 (drop 30 pkt)))"
  "tp_src_port (read_event (event_bytes (captured now pkt))) = of_nat (be16_at (tcp_start_of pkt) pkt)"
  "tp_dst_port (read_event (event_bytes (captured now pkt))) = of_nat (be16_at (tcp_start_of pkt + 2) pkt)"
  "tp_timestamp_ns (read_event (event_bytes (captured now pkt))) = now"
  unfolding read_event_bytes captured_def Let_def by simp_all

lemma ucast_ucast_port: "ucast (ucast (w :: u16) :: u32) = w"
  by (rule bit_word_eqI) (simp add: bit_ucast_iff)

section \<open>HTTP parsing\<close>

lemma bytes_str_bytes: "bytes_str (str_bytes s) = s"
proof -
  have "unat (of_nat (of_char c) :: u8) = of_char c" for c :: char
    by (simp add: unsigned_of_nat take_bit_nat_eq_self)
  then show ?thesis by (simp add: bytes_str_def str_bytes_def comp_def)
qed

text \<open>ASCII text is well-formed UTF-8.\<close>

definition ascii :: "u8 list \<Rightarrow> bool" where
  "ascii bs \<longleftrightarrow> (\<forall>b \<in> set bs. b < 0x80)"

lemma ascii_valid: "ascii bs \<Longrightarrow> utf8_valid bs"
  by (induction bs) (auto simp: ascii_def)

lemma from_utf8_ascii: "ascii bs \<Longrightarrow> from_utf8 bs = Some (bytes_str bs)"
  by (simp add: from_utf8_def ascii_valid)

lemma window_position_first:
  assumes "length w = n" and "0 < n" and "P w" and "\<And>i. i < length a \<Longrightarrow> \<not> P (take n (drop i (a @ w @ r)))"
  shows "window_position n P (a @ w @ r) = Some (length a)"
  using assms(4)
proof (induction a)
  case Nil
  obtain x xs where "w = x # xs" using assms(1,2) by (cases w) auto
  then show ?case using assms(1,3) by auto
next
  case (Cons x a)
  have "\<not> P (take n (x # a @ w @ r))" using Cons.prems [of 0] by simp
  moreover have "\<And>i. i < length a \<Longrightarrow> \<not> P (take n (drop i (a @ w @ r)))"
    using Cons.prems [of "Suc _"] by simp
  ultimately show ?case using Cons.IH assms(1) by simp
qed

text \<open>The pieces of a payload that the three parsers look at.\<close>

lemma parse_request_line:
  assumes "payload_bytes e = meth @ [0x20] @ path @ rest" and "0x20 \<notin> set meth" and "0x20 \<notin> set path"
    and "rest = [] \<or> hd rest = 0x20" and "ascii meth" and "ascii path"
  shows "parse_method e = Some (bytes_str meth)" "parse_path e = Some (bytes_str path)"
proof -
  have first: "position (\<lambda>b. b = 0x20) (payload_bytes e) = Some (length meth)"
    using assms(1,2) position_append [of meth "\<lambda>b. b = 0x20" "0x20" "path @ rest"] by auto
  then show "parse_method e = Some (bytes_str meth)"
    using assms(1,5) by (simp add: parse_method_def from_utf8_ascii)
  have second: "(case position (\<lambda>b. b = 0x20) (path @ rest) of None \<Rightarrow> length (path @ rest) | Some i \<Rightarrow> i) = length path"
  proof (cases rest)
    case Nil
    have "position (\<lambda>b. b = 0x20) path = None" using assms(3) by (intro position_none) auto
    then show ?thesis using Nil by simp
  next
    case (Cons b bs)
    then have "position (\<lambda>b. b = 0x20) (path @ rest) = Some (length path)"
      using assms(3,4) position_append [of path "\<lambda>b. b = 0x20" b bs] by auto
    then show ?thesis by simp
  qed
  show "parse_path e = Some (bytes_str path)"
    using first second assms(1,6) by (simp add: parse_path_def Let_def from_utf8_ascii)
qed

lemma parse_host_header:
  assumes p: "payload_bytes e = pre @ name @ blanks @ host @ rest"
    and name: "eq_ignore_ascii_case name (str_bytes ''Host:'')"
    and first: "\<And>i. i < length pre \<Longrightarrow> \<not> eq_ignore_ascii_case (take 5 (drop i (payload_bytes e))) (str_bytes ''Host:'')"
    and blanks: "set blanks \<subseteq> {0x20, 0x09}"
    and start: "host @ rest \<noteq> []" "hd (host @ rest) \<notin> {0x20, 0x09}"
    and host: "ascii host" "0x0D \<notin> set host" "0x0A \<notin> set host" and rest: "rest = [] \<or> hd rest \<in> {0x0D, 0x0A}"
  shows "parse_host e = Some (before_char (CHR '':'') (bytes_str host))"
proof -
  have len: "length name = 5"
    using name by (auto simp: eq_ignore_ascii_case_def str_bytes_def dest: map_eq_imp_length_eq)
  have w: "window_position 5 (\<lambda>w. eq_ignore_ascii_case w (str_bytes ''Host:'')) (payload_bytes e) = Some (length pre)"
    unfolding p by (rule window_position_first) (use len name first p in auto)
  obtain x xs where x: "host @ rest = x # xs" using start(1) by (cases "host @ rest") auto
  have s: "position (\<lambda>b. b \<noteq> 0x20 \<and> b \<noteq> 0x09) (blanks @ host @ rest) = Some (length blanks)"
    using position_append [of blanks "\<lambda>b. b \<noteq> 0x20 \<and> b \<noteq> 0x09" x xs] blanks start(2) x by auto
  have f: "(case position (\<lambda>b. b = 0x0D \<or> b = 0x0A) (host @ rest) of None \<Rightarrow> length (host @ rest) | Some i \<Rightarrow> i) = length host"
  proof (cases rest)
    case Nil
    then have "position (\<lambda>b. b = 0x0D \<or> b = 0x0A) (host @ rest) = None" using host(2,3) by (intro position_none) auto
    then show ?thesis using Nil by simp
  next
    case (Cons b bs)
    then have "position (\<lambda>b. b = 0x0D \<or> b = 0x0A) (host @ rest) = Some (length host)"
      using host(2,3) rest position_append [of host "\<lambda>b. b = 0x0D \<or> b = 0x0A" b bs] by auto
    then show ?thesis by simp
  qed
  have d: "drop (length pre + 5) (payload_bytes e) = blanks @ host @ rest" using p len by simp
  have v: "drop (length blanks) (blanks @ host @ rest) = host @ rest" by simp
  show ?thesis
    unfolding parse_host_def Let_def w option.case d s v f using host(1) by (simp add: from_utf8_ascii)
qed

lemma skb_of_laws: "length pkt < 2 ^ 32 \<Longrightarrow> skb_laws (skb_of pkt) pkt"
  by (simp add: skb_laws_def skb_of_def)

lemma sample_segment: "http_segment sample_packet"
  by code_simp

lemma sample_length: "length sample_packet = 91"
  by code_simp

lemma sample_skb: "skb_laws (skb_of sample_packet) sample_packet"
  by (rule skb_of_laws) (simp add: sample_length)

lemma sample_payload:
  "payload_bytes (read_event (event_bytes (captured now sample_packet))) =
     str_bytes ''GET'' @ [0x20] @ str_bytes ''/api'' @ str_bytes '' HTTP/1.1'' @ [0x0D, 0x0A] @ str_bytes ''Host: svc-b:80'' @ [0x0D, 0x0A, 0x0D, 0x0A]"
  unfolding captured_payload by code_simp

lemma sample_parsed:
  "parse_method (read_event (event_bytes (captured now sample_packet))) = Some ''GET''"
  "parse_path (read_event (event_bytes (captured now sample_packet))) = Some ''/api''"
  "parse_host (read_event (event_bytes (captured now sample_packet))) = Some ''svc-b''"
  unfolding parse_method_def parse_path_def parse_host_def sample_payload by code_simp+

section \<open>Properties\<close>

text \<open>C31. The filter reports exactly the request segments, one event each, and the event carries the
  packet's addresses and ports and the first 1024 bytes of its payload, zero-padded to the fixed
  size; every packet is passed on with verdict 0.\<close>

theorem http_filter_exact:
  assumes "skb_laws ctx pkt"
  shows "http_filter now ctx = (0, if http_segment pkt then [captured now pkt] else []) \<and>
    length (k_payload (captured now pkt)) = 1024 \<and>
    unat (k_payload_len (captured now pkt)) = min (length pkt - payload_start_of pkt) 1024 \<and>
    take (unat (k_payload_len (captured now pkt))) (k_payload (captured now pkt)) = take 1024 (drop (payload_start_of pkt) pkt)"
proof -
  have "take (min (length (drop (payload_start_of pkt) pkt)) 1024) (take 1024 (drop (payload_start_of pkt) pkt) @ zs) =
      take 1024 (drop (payload_start_of pkt) pkt)" for zs
    by (simp add: min_def)
  then show ?thesis using http_filter_packet [OF assms] captured_len captured_bytes by simp
qed

theorem http_filter_exact_witness:
  "http_filter 7 (skb_of sample_packet) = (0, [captured 7 sample_packet])"
  using http_filter_exact [OF sample_skb, of 7] sample_segment by simp

text \<open>C32. A captured request is read back: if the captured bytes are a method, a space, a path, a space,
  further text and a first \<open>Host:\<close> header (in any letter case, after any blanks, up to the end of
  its line or of the capture), the parsers return that method, that path, and the host without
  its port.\<close>

theorem http_request_parsed:
  assumes "payload_bytes e = (meth @ [0x20] @ path @ [0x20] @ mid) @ name @ blanks @ host @ rest"
    and "0x20 \<notin> set meth" and "0x20 \<notin> set path" and "ascii meth" and "ascii path"
    and "eq_ignore_ascii_case name (str_bytes ''Host:'')"
    and "\<forall>i < length (meth @ [0x20] @ path @ [0x20] @ mid).
      \<not> eq_ignore_ascii_case (take 5 (drop i (payload_bytes e))) (str_bytes ''Host:'')"
    and "set blanks \<subseteq> {0x20, 0x09}" and "host @ rest \<noteq> []" and "hd (host @ rest) \<notin> {0x20, 0x09}"
    and "ascii host" and "0x0D \<notin> set host" and "0x0A \<notin> set host" and "rest = [] \<or> hd rest \<in> {0x0D, 0x0A}"
  shows "parse_method e = Some (bytes_str meth) \<and> parse_path e = Some (bytes_str path) \<and>
    parse_host e = Some (before_char (CHR '':'') (bytes_str host))"
proof -
  have "payload_bytes e = meth @ [0x20] @ path @ ([0x20] @ mid @ name @ blanks @ host @ rest)" using assms(1) by simp
  from parse_request_line [OF this assms(2,3) _ assms(4,5)]
  have "parse_method e = Some (bytes_str meth) \<and> parse_path e = Some (bytes_str path)" by simp
  moreover have "parse_host e = Some (before_char (CHR '':'') (bytes_str host))"
    using assms by (intro parse_host_header [of e "meth @ [0x20] @ path @ [0x20] @ mid" name blanks host rest]) auto
  ultimately show ?thesis by simp
qed

theorem http_request_parsed_witness:
  "parse_path (read_event (event_bytes (captured 7 sample_packet))) = Some ''/api'' \<and>
   parse_host (read_event (event_bytes (captured 7 sample_packet))) = Some ''svc-b''"
proof -
  let ?e = "read_event (event_bytes (captured 7 sample_packet))"
  let ?pre = "str_bytes ''GET'' @ [0x20] @ str_bytes ''/api'' @ [0x20] @ (str_bytes ''HTTP/1.1'' @ [0x0D, 0x0A])"
  have p: "payload_bytes ?e = ?pre @ str_bytes ''Host:'' @ [0x20] @ str_bytes ''svc-b:80'' @ [0x0D, 0x0A, 0x0D, 0x0A]"
    unfolding sample_payload by code_simp
  have l: "length ?pre = 19" by code_simp
  have "\<forall>i < 19. \<not> eq_ignore_ascii_case (take 5 (drop i (payload_bytes ?e))) (str_bytes ''Host:'')"
    unfolding p by code_simp
  then have none: "\<forall>i < length ?pre. \<not> eq_ignore_ascii_case (take 5 (drop i (payload_bytes ?e))) (str_bytes ''Host:'')"
    unfolding l .
  have c: "0x20 \<notin> set (str_bytes ''GET'')" "0x20 \<notin> set (str_bytes ''/api'')" "ascii (str_bytes ''GET'')" "ascii (str_bytes ''/api'')"
    "eq_ignore_ascii_case (str_bytes ''Host:'') (str_bytes ''Host:'')" "set [0x20] \<subseteq> {0x20 :: u8, 0x09}"
    "str_bytes ''svc-b:80'' @ [0x0D, 0x0A, 0x0D, 0x0A] \<noteq> []"
    "hd (str_bytes ''svc-b:80'' @ [0x0D, 0x0A, 0x0D, 0x0A]) \<notin> {0x20, 0x09}"
    "ascii (str_bytes ''svc-b:80'')" "0x0D \<notin> set (str_bytes ''svc-b:80'')" "0x0A \<notin> set (str_bytes ''svc-b:80'')"
    "[0x0D, 0x0A, 0x0D, 0x0A] = ([] :: u8 list) \<or> hd [0x0D, 0x0A, 0x0D, 0x0A] \<in> {0x0D :: u8, 0x0A}"
    by code_simp+
  from http_request_parsed [OF p c(1-5) none c(6-12)]
  show ?thesis by (simp add: bytes_str_bytes before_char_takeWhile)
qed

text \<open>From the wire to Core: for a captured packet whose payload yields a method, the loader sends
  one request, and the task Core queues for it has the packet's own addresses in dotted notation
  (the byte order survives kernel, loader and Core), its ports without truncation, the kernel's
  timestamp, and the method, path and host parsed from the first 128 payload bytes.\<close>

theorem packet_reaches_core:
  fixes now :: u64
  assumes "skb_laws ctx pkt" and "http_filter now ctx = (0, [ev])"
    and "parse_method (read_event (event_bytes ev)) = Some m" and "m \<noteq> []"
  shows "\<exists>req i. handle_tcp_event (event_bytes ev) = Some req \<and>
    spawned (snd (send_ebpf_network_event req s)) = spawned s @ [RecordEbpf i] \<and>
    src_ip_str i = dotted (unat (pkt ! 26), unat (pkt ! 27), unat (pkt ! 28), unat (pkt ! 29)) \<and>
    dst_ip_str i = dotted (unat (pkt ! 30), unat (pkt ! 31), unat (pkt ! 32), unat (pkt ! 33)) \<and>
    unat (in_src_port i) = be16_at (tcp_start_of pkt) pkt \<and>
    unat (in_dst_port i) = be16_at (tcp_start_of pkt + 2) pkt \<and>
    in_timestamp_ns i = now \<and> in_method i = m \<and>
    in_path i = unwrap_or_default (parse_path (read_event (event_bytes ev))) \<and>
    in_host i = unwrap_or_default (parse_host (read_event (event_bytes ev))) \<and>
    payload_bytes (read_event (event_bytes ev)) = take 128 (drop (payload_start_of pkt) pkt)"
proof -
  have seg: "http_segment pkt" and ev: "ev = captured now pkt"
    using assms(2) http_filter_packet [OF assms(1), of now] by (auto split: if_splits)
  have len: "34 \<le> length pkt" using seg by (simp add: http_segment_def)
  let ?e = "read_event (event_bytes ev)"
  let ?i = "\<lparr>in_timestamp_ns = now, src_ip = tp_src_ip ?e, dst_ip = tp_dst_ip ?e, in_src_port = tp_src_port ?e,
     in_dst_port = tp_dst_port ?e, in_method = m, in_path = unwrap_or_default (parse_path ?e),
     in_host = unwrap_or_default (parse_host ?e)\<rparr>"
  have pl: "payload_bytes ?e = take 128 (drop (payload_start_of pkt) pkt)"
    by (simp add: ev captured_payload)
  have e: "tp_src_ip ?e = of_nat (le_nat (take 4 (drop 26 pkt)))" "tp_dst_ip ?e = of_nat (le_nat (take 4 (drop 30 pkt)))"
    "tp_src_port ?e = of_nat (be16_at (tcp_start_of pkt) pkt)" "tp_dst_port ?e = of_nat (be16_at (tcp_start_of pkt + 2) pkt)"
    "tp_timestamp_ns ?e = now"
    by (simp_all add: ev captured_fields)
  have port: "unat (of_nat (be16_at j pkt) :: u16) = be16_at j pkt" for j
    using be16_bound [of j pkt] by (simp add: unsigned_of_nat take_bit_nat_eq_self)
  have addr: "src_ip_str ?i = dotted (unat (pkt ! 26), unat (pkt ! 27), unat (pkt ! 28), unat (pkt ! 29))"
    "dst_ip_str ?i = dotted (unat (pkt ! 30), unat (pkt ! 31), unat (pkt ! 32), unat (pkt ! 33))"
    using len load32_be [of 26 pkt] load32_be [of 30 pkt]
    by (simp_all add: src_ip_str_def dst_ip_str_def ipv4_to_string_def e)
  have "event_size \<le> length (event_bytes ev)" by (simp add: ev event_size_def max_payload_def)
  then obtain req where req: "handle_tcp_event (event_bytes ev) = Some req"
      "spawned (snd (send_ebpf_network_event req s)) = spawned s @ [RecordEbpf ?i]"
    using assms(3,4)
    by (simp add: handle_tcp_event_def Let_def unwrap_or_default_def loader_request_def send_ebpf_network_event_def e(5) ucast_ucast_port)
  then show ?thesis using addr port pl by (intro exI [of _ req] exI [of _ ?i]) (simp add: e(3,4))
qed

theorem packet_reaches_core_witness:
  "\<exists>req i. handle_tcp_event (event_bytes (captured 7 sample_packet)) = Some req \<and>
     spawned (snd (send_ebpf_network_event req two_pods)) = spawned two_pods @ [RecordEbpf i] \<and>
     src_ip_str i = dotted (10, 0, 0, 1) \<and> dst_ip_str i = dotted (10, 0, 0, 2) \<and> in_method i = ''GET''"
proof -
  have "http_filter 7 (skb_of sample_packet) = (0, [captured 7 sample_packet])"
    using http_filter_packet [OF sample_skb] sample_segment by simp
  moreover have "parse_method (read_event (event_bytes (captured 7 sample_packet))) = Some (bytes_str (str_bytes ''GET''))"
    by (rule parse_request_line [OF sample_payload]) code_simp+
  moreover have "map (\<lambda>i. unat (sample_packet ! i)) [26, 27, 28, 29, 30, 31, 32, 33] = [10, 0, 0, 1, 10, 0, 0, 2]"
    by code_simp
  ultimately show ?thesis
    using packet_reaches_core [OF sample_skb, of 7 "captured 7 sample_packet" "''GET''" two_pods]
    by (simp add: bytes_str_bytes) blast
qed

end
