(* ===== verification/Loader_Wiring.thy ===== *)
theory Loader_Wiring
  imports Capture
begin

text \<open>
  The loader as a program, \<^verbatim>\<open>ebpf-loader/src\<close>: its configuration, the start sequence of
  \<^verbatim>\<open>loader/ebpf_loader.rs\<close> and the reader loop. The kernel, the \<open>aya\<close> package and the file system
  are a parameter, a record of operations over an abstract world. A step
  panics, fails with an error or succeeds.
\<close>

section \<open>Configuration\<close>

record loader_config =
  lo_core_host :: string
  lo_core_grpc_port :: u16
  lo_perf_array_name :: string
  lo_ebpf_path :: string

definition default_ebpf_path :: string where
  "default_ebpf_path = ''/workspace/ebpf/target/bpfel-unknown-none/release/ebpf''"

text \<open>The path is the default when the file does not give one; \<open>from_yaml\<close> reads the fields of the file.\<close>

definition loader_init_config :: "(string \<Rightarrow> string option) \<Rightarrow> (string \<Rightarrow> string option)
    \<Rightarrow> (string \<Rightarrow> (string \<times> u16 \<times> string \<times> string option) option) \<Rightarrow> loader_config option
    \<Rightarrow> (loader_config \<times> loader_config option) option" where
  "loader_init_config env read_to_string from_yaml cell =
     (let config_path = (case env ''CONFIG_PATH'' of None \<Rightarrow> ''/app/config.yaml'' | Some p \<Rightarrow> p) in
      get_or_init cell (map_option (\<lambda>(host, port, perf, path).
          \<lparr>lo_core_host = host, lo_core_grpc_port = port, lo_perf_array_name = perf,
           lo_ebpf_path = (case path of None \<Rightarrow> default_ebpf_path | Some p \<Rightarrow> p)\<rparr>)
        (Option.bind (read_to_string config_path) from_yaml)))"

definition loader_endpoint :: "loader_config \<Rightarrow> string" where
  "loader_endpoint config = ''http://'' @ lo_core_host config @ '':'' @ nat_str (unat (lo_core_grpc_port config))"

section \<open>Steps that may panic or fail\<close>

datatype 'a outcome = Panicked | Failed string | Done 'a

definition and_then :: "('w \<Rightarrow> 'a outcome \<times> 'w) \<Rightarrow> ('a \<Rightarrow> 'w \<Rightarrow> 'b outcome \<times> 'w) \<Rightarrow> 'w \<Rightarrow> 'b outcome \<times> 'w" where
  "and_then f g w =
     (case f w of (Panicked, w') \<Rightarrow> (Panicked, w') | (Failed e, w') \<Rightarrow> (Failed e, w') | (Done a, w') \<Rightarrow> g a w')"

definition or_panic :: "('w \<Rightarrow> 'a option \<times> 'w) \<Rightarrow> 'w \<Rightarrow> 'a outcome \<times> 'w" where
  "or_panic f w = (case f w of (None, w') \<Rightarrow> (Panicked, w') | (Some a, w') \<Rightarrow> (Done a, w'))"

definition or_fail :: "('w \<Rightarrow> ('a, string) rust_result \<times> 'w) \<Rightarrow> 'w \<Rightarrow> 'a outcome \<times> 'w" where
  "or_fail f w = (case f w of (Inl e, w') \<Rightarrow> (Failed e, w') | (Inr a, w') \<Rightarrow> (Done a, w'))"

text \<open>What the loader calls: the file system, \<open>libc::socket\<close> and \<open>aya\<close>. The world holds the loaded
  object, its program, the socket and the open perf buffers.\<close>

record 'w loader_ops =
  op_read_file :: "string \<Rightarrow> 'w \<Rightarrow> u8 list option \<times> 'w"
  op_load_object :: "u8 list \<Rightarrow> 'w \<Rightarrow> (unit, string) rust_result \<times> 'w"
  op_init_logger :: "'w \<Rightarrow> (unit, string) rust_result \<times> 'w"
  op_socket :: "'w \<Rightarrow> int \<times> 'w"
  op_program :: "string \<Rightarrow> 'w \<Rightarrow> unit option \<times> 'w"
  op_as_socket_filter :: "'w \<Rightarrow> (unit, string) rust_result \<times> 'w"
  op_load_program :: "'w \<Rightarrow> (unit, string) rust_result \<times> 'w"
  op_attach :: "int \<Rightarrow> 'w \<Rightarrow> (unit, string) rust_result \<times> 'w"
  op_take_map :: "string \<Rightarrow> 'w \<Rightarrow> unit option \<times> 'w"
  op_as_perf_array :: "'w \<Rightarrow> (unit, string) rust_result \<times> 'w"
  op_online_cpus :: "'w \<Rightarrow> (nat list, string) rust_result \<times> 'w"
  op_open_buffer :: "nat \<Rightarrow> 'w \<Rightarrow> (unit, string) rust_result \<times> 'w"
  op_ctrl_c :: "'w \<Rightarrow> (unit, string) rust_result \<times> 'w"

section \<open>The start sequence\<close>

text \<open>A failure of the logger is only logged.\<close>

definition load_ebpf_program :: "'w loader_ops \<Rightarrow> loader_config \<Rightarrow> 'w \<Rightarrow> unit outcome \<times> 'w" where
  "load_ebpf_program L config =
     and_then (or_panic (op_read_file L (lo_ebpf_path config))) (\<lambda>ebpf_data.
     and_then (or_fail (op_load_object L ebpf_data)) (\<lambda>_ w.
       (Done (), snd (op_init_logger L w))))"

definition create_raw_socket :: "'w loader_ops \<Rightarrow> 'w \<Rightarrow> int outcome \<times> 'w" where
  "create_raw_socket L w =
     (case op_socket L w of (fd, w') \<Rightarrow> if fd < 0 then (Failed ''Failed to create raw socket'', w') else (Done fd, w'))"

definition attach_socket_filter :: "'w loader_ops \<Rightarrow> int \<Rightarrow> 'w \<Rightarrow> unit outcome \<times> 'w" where
  "attach_socket_filter L sock =
     and_then (or_panic (op_program L ''http_filter'')) (\<lambda>_.
     and_then (or_fail (op_as_socket_filter L)) (\<lambda>_.
     and_then (or_fail (op_load_program L)) (\<lambda>_.
       or_fail (op_attach L sock))))"

text \<open>One reader task for each buffer that opens, in the order of the processors, until one fails.\<close>

fun open_readers :: "'w loader_ops \<Rightarrow> nat list \<Rightarrow> nat list \<Rightarrow> 'w \<Rightarrow> nat list outcome \<times> 'w" where
  "open_readers L [] spawned_readers w = (Done spawned_readers, w)"
| "open_readers L (cpu # cpus) spawned_readers w =
     and_then (or_fail (op_open_buffer L cpu)) (\<lambda>_. open_readers L cpus (spawned_readers @ [cpu])) w"

definition spawn_event_readers :: "'w loader_ops \<Rightarrow> loader_config \<Rightarrow> 'w \<Rightarrow> nat list outcome \<times> 'w" where
  "spawn_event_readers L config =
     and_then (or_panic (op_take_map L (lo_perf_array_name config))) (\<lambda>_.
     and_then (or_fail (op_as_perf_array L)) (\<lambda>_.
     and_then (or_fail (op_online_cpus L)) (\<lambda>cpus.
       open_readers L cpus [])))"

definition loader_start :: "'w loader_ops \<Rightarrow> loader_config \<Rightarrow> 'w \<Rightarrow> nat list outcome \<times> 'w" where
  "loader_start L config =
     and_then (load_ebpf_program L config) (\<lambda>_.
     and_then (create_raw_socket L) (\<lambda>sock.
     and_then (attach_socket_filter L sock) (\<lambda>_.
     and_then (spawn_event_readers L config) (\<lambda>readers.
     and_then (or_fail (op_ctrl_c L)) (\<lambda>_ w. (Done readers, w))))))"

section \<open>The reader loop\<close>

text \<open>Each turn of the loop is a read that fails, which is logged, or fills the first buffers.\<close>

fun process_events :: "((nat, string) rust_result \<times> u8 list list) list \<Rightarrow> ebpf_network_event_request list" where
  "process_events [] = []"
| "process_events ((Inl e, buffers) # reads) = process_events reads"
| "process_events ((Inr n_read, buffers) # reads) = process_batch n_read buffers @ process_events reads"

definition default_event :: tcp_payload_event where
  "default_event = \<lparr>tp_timestamp_ns = 0, tp_src_ip = 0, tp_dst_ip = 0, tp_src_port = 0, tp_dst_port = 0,
     tp_payload_len = 0, tp_padding = 0, tp_payload = replicate max_payload 0\<rparr>"

text \<open>\<open>ip_to_string\<close>\<close>

definition ip_to_string :: "u32 \<Rightarrow> string" where
  "ip_to_string addr = ipv4_to_string (u32_from_be addr)"

section \<open>Facts\<close>

lemma and_then_done: "and_then f g w = (Done b, w') \<longleftrightarrow> (\<exists>a w1. f w = (Done a, w1) \<and> g a w1 = (Done b, w'))"
  by (simp add: and_then_def split: prod.split outcome.split)

lemma or_fail_done: "or_fail f w = (Done a, w') \<longleftrightarrow> f w = (Inr a, w')"
  by (simp add: or_fail_def split: prod.split sum.split)

lemma open_readers_all: "open_readers L cpus acc w = (Done readers, w') \<Longrightarrow> readers = acc @ cpus"
  by (induction cpus arbitrary: acc w) (simp, fastforce simp: and_then_done)

text \<open>A start that succeeds has created a socket, attached the filter to that very socket, and opened a reader
  for every online processor.\<close>

lemma socket_done: "create_raw_socket L w = (Done fd, w') \<Longrightarrow> 0 \<le> fd \<and> op_socket L w = (fd, w')"
  by (simp add: create_raw_socket_def split: prod.splits if_splits)

lemma attach_done: "attach_socket_filter L fd w = (Done (), w') \<Longrightarrow> \<exists>w1. op_attach L fd w1 = (Inr (), w')"
  by (auto simp: attach_socket_filter_def and_then_done or_fail_done)

lemma spawn_done:
  "spawn_event_readers L config w = (Done readers, w') \<Longrightarrow> \<exists>w1 w2. op_online_cpus L w1 = (Inr readers, w2)"
  by (fastforce simp: spawn_event_readers_def and_then_done or_fail_done dest: open_readers_all)

lemma loader_running:
  assumes "loader_start L config w = (Done readers, w')"
  shows "\<exists>fd w1 w2 w3 w4 w5 w6. 0 \<le> fd \<and> op_socket L w1 = (fd, w2) \<and> op_attach L fd w3 = (Inr (), w4) \<and>
    op_online_cpus L w5 = (Inr readers, w6)"
proof -
  obtain fd w1 w2 wa wb where s: "create_raw_socket L w1 = (Done fd, w2)" "attach_socket_filter L fd w2 = (Done (), wa)"
      "spawn_event_readers L config wa = (Done readers, wb)"
    using assms by (auto simp: loader_start_def and_then_done)
  show ?thesis using socket_done [OF s(1)] attach_done [OF s(2)] spawn_done [OF s(3)] by blast
qed

text \<open>Reads that fail lose no event, and every event is handled once and in order.\<close>

lemma process_events_all:
  "process_events reads = concat (map (\<lambda>(r, buffers). case r of Inl _ \<Rightarrow> [] | Inr n \<Rightarrow> process_batch n buffers) reads)"
  by (induction reads rule: process_events.induct) simp_all

lemma default_event_silent: "parse_method default_event = None"
  by (simp add: parse_method_def payload_bytes_def default_event_def)

section \<open>The first line of a payload\<close>

text \<open>\<open>String::from_utf8_lossy\<close>: a well-formed character is copied; otherwise the longest prefix that
  could begin one (at least one byte) becomes a replacement character. A byte past the end reads as zero.\<close>

definition byte_at :: "u8 list \<Rightarrow> nat \<Rightarrow> u8" where
  "byte_at bs i = (if i < length bs then bs ! i else 0)"

definition second_of_3 :: "u8 \<Rightarrow> u8 \<Rightarrow> bool" where
  "second_of_3 b c \<longleftrightarrow> utf8_cont c \<and> (b = 0xE0 \<longrightarrow> 0xA0 \<le> c) \<and> (b = 0xED \<longrightarrow> c \<le> 0x9F)"

definition second_of_4 :: "u8 \<Rightarrow> u8 \<Rightarrow> bool" where
  "second_of_4 b c \<longleftrightarrow> utf8_cont c \<and> (b = 0xF0 \<longrightarrow> 0x90 \<le> c) \<and> (b = 0xF4 \<longrightarrow> c \<le> 0x8F)"

definition utf8_step :: "u8 \<Rightarrow> u8 list \<Rightarrow> bool \<times> nat" where
  "utf8_step b bs =
     (if b < 0x80 then (True, 1)
      else if 0xC2 \<le> b \<and> b \<le> 0xDF then (if utf8_cont (byte_at bs 0) then (True, 2) else (False, 1))
      else if 0xE0 \<le> b \<and> b \<le> 0xEF then
        (if second_of_3 b (byte_at bs 0) then (if utf8_cont (byte_at bs 1) then (True, 3) else (False, 2)) else (False, 1))
      else if 0xF0 \<le> b \<and> b \<le> 0xF4 then
        (if second_of_4 b (byte_at bs 0) then
           (if utf8_cont (byte_at bs 1) then (if utf8_cont (byte_at bs 2) then (True, 4) else (False, 3)) else (False, 2))
         else (False, 1))
      else (False, 1))"

function from_utf8_lossy :: "u8 list \<Rightarrow> u8 list" where
  "from_utf8_lossy [] = []"
| "from_utf8_lossy (b # bs) =
     (let (valid, n) = utf8_step b bs
      in (if valid then take n (b # bs) else [0xEF, 0xBF, 0xBD]) @ from_utf8_lossy (drop n (b # bs)))"
  by pat_completeness auto

lemma utf8_step_pos: "utf8_step b bs = (valid, n) \<Longrightarrow> 0 < n"
  by (auto simp: utf8_step_def split: if_splits)

termination from_utf8_lossy
  by (relation "measure length") (auto, metis utf8_step_pos diff_less zero_less_Suc)

text \<open>\<open>str::lines().next()\<close>: up to the first line feed, without a carriage return before it.\<close>

definition first_line :: "u8 list \<Rightarrow> u8 list" where
  "first_line bs =
     (let line = takeWhile (\<lambda>b. b \<noteq> 0x0A) bs
      in if length line < length bs \<and> line \<noteq> [] \<and> last line = 0x0D then butlast line else line)"

definition payload_str :: "tcp_payload_event \<Rightarrow> string" where
  "payload_str e = bytes_str (first_line (from_utf8_lossy (payload_bytes e)))"

lemma byte_at_simps [simp]: "byte_at (b # bs) 0 = b" "byte_at (b # bs) (Suc i) = byte_at bs i" "byte_at [] i = 0"
  by (simp_all add: byte_at_def)

lemma not_cont_0 [simp]: "\<not> utf8_cont 0"
  by (simp add: utf8_cont_def)

lemma not_second_0 [simp]: "\<not> second_of_3 b 0" "\<not> second_of_4 b 0"
  by (simp_all add: second_of_3_def second_of_4_def)

text \<open>Well-formed text is kept, and the result is always well formed.\<close>

lemma utf8_valid_step:
  "utf8_valid (b # bs) = (let (valid, n) = utf8_step b bs in valid \<and> utf8_valid (drop n (b # bs)))"
  by (cases bs; cases "tl bs"; cases "tl (tl bs)")
    (auto simp: utf8_step_def second_of_3_def second_of_4_def numeral_eq_Suc)

lemma lossy_valid: "utf8_valid bs \<Longrightarrow> from_utf8_lossy bs = bs"
proof (induction bs rule: from_utf8_lossy.induct)
  case (2 b bs)
  obtain valid n where "utf8_step b bs = (valid, n)" by fastforce
  then show ?case using 2 by (simp add: utf8_valid_step [of b bs] del: utf8_valid.simps)
qed simp

lemma utf8_step_valid: "utf8_step b bs = (True, n) \<Longrightarrow> utf8_valid (take n (b # bs) @ r) = utf8_valid r"
  by (cases bs; cases "tl bs"; cases "tl (tl bs)")
    (auto simp: utf8_step_def second_of_3_def second_of_4_def numeral_eq_Suc split: if_splits)

lemma lossy_well_formed: "utf8_valid (from_utf8_lossy bs)"
proof (induction bs rule: from_utf8_lossy.induct)
  case (2 b bs)
  obtain valid n where st: "utf8_step b bs = (valid, n)" by fastforce
  have "utf8_valid ([0xEF, 0xBF, 0xBD] @ r) = utf8_valid r" for r by (simp add: utf8_cont_def)
  then show ?case using 2 st utf8_step_valid [of b bs n] by (simp del: utf8_valid.simps)
qed simp

text \<open>Of a request with a well-formed payload it is the request line.\<close>

lemma payload_str_request_line:
  assumes "payload_bytes e = line @ [0x0D, 0x0A] @ rest" and "0x0A \<notin> set line" and "utf8_valid (payload_bytes e)"
  shows "payload_str e = bytes_str line"
proof -
  have "takeWhile (\<lambda>b. b \<noteq> 0x0A) (line @ [0x0D, 0x0A] @ rest) = line @ [0x0D]"
    using assms(2) by (subst takeWhile_append2) auto
  then show ?thesis using lossy_valid [OF assms(3)] assms(1) by (simp add: payload_str_def first_line_def)
qed

end
