(* ===== verification/Cluster_Agent.thy ===== *)
theory Cluster_Agent
  imports Grpc_Server
begin

text \<open>
  The cluster agent: the service registry, the handlers of the Kubernetes
  watchers and the watch loop (\<^verbatim>\<open>cluster-agent/src/kubernetes\<close>), the client of
  Core (\<^verbatim>\<open>cluster-agent/src/service/cluster_aggregator.rs\<close>) and the periodic
  snapshot (\<^verbatim>\<open>cluster-agent/src/server/mod.rs\<close>). A handler changes the registry and
  hands requests to Core to spawned tasks; \<open>outbox\<close> lists these requests in
  the order they were spawned. The objects of the Kubernetes API are records of
  the fields the agent reads.
\<close>

section \<open>Kubernetes objects\<close>

record object_meta =
  om_name :: "string option"
  om_namespace :: "string option"
  om_labels :: "(string, string) hash_map option"

record service_spec =
  ss_selector :: "(string, string) hash_map option"
  ss_type :: "string option"
  ss_cluster_ip :: "string option"

record service_obj =
  sv_metadata :: object_meta
  sv_spec :: "service_spec option"

record pod_status =
  ps_pod_ip :: "string option"

record pod_obj =
  po_metadata :: object_meta
  po_status :: "pod_status option"

record config_map_obj =
  co_metadata :: object_meta
  co_data :: "(string, string) hash_map option"

record object_reference =
  or_kind :: "string option"
  or_name :: "string option"
  or_namespace :: "string option"

record event_obj =
  eo_metadata :: object_meta
  eo_reason :: "string option"
  eo_message :: "string option"
  eo_type :: "string option"
  eo_count :: "32 word option"
  eo_involved :: object_reference

text \<open>\<open>unwrap_or_default\<close> on strings and label maps\<close>

definition str_or_default :: "string option \<Rightarrow> string" where
  "str_or_default x = (case x of None \<Rightarrow> [] | Some s \<Rightarrow> s)"

definition map_or_default :: "(string, string) hash_map option \<Rightarrow> (string, string) hash_map" where
  "map_or_default x = (case x of None \<Rightarrow> [] | Some m \<Rightarrow> m)"

section \<open>The service registry\<close>

record registered_service =
  rs_name :: string
  rs_service_type :: string
  rs_selector :: "(string, string) hash_map"

type_synonym service_registry = "(string, registered_service) hash_map rwlock"

definition register :: "service_obj \<Rightarrow> service_registry \<Rightarrow> (string, string) rust_result \<times> service_registry" where
  "register svc reg =
     (case om_name (sv_metadata svc) of
        None \<Rightarrow> (Inr ''no service found!'', reg)
      | Some name \<Rightarrow>
          let ns = str_or_default (om_namespace (sv_metadata svc)) in
          (case sv_spec svc of
             None \<Rightarrow> (Inr ''No spec found!'', reg)
           | Some spec \<Rightarrow>
               let selector = map_or_default (ss_selector spec) in
               if selector = [] then (Inr ''No selector found on service'', reg)
               else
                 let service_type = (case ss_type spec of None \<Rightarrow> ''ClusterIP'' | Some t \<Rightarrow> t);
                     key = slash_key ns name
                 in if poisoned reg then (Inl ''lock poisoned'', reg)
                    else (Inr ''regisetered services'',
                      lock_set (hm_insert key \<lparr>rs_name = name, rs_service_type = service_type,
                                               rs_selector = selector\<rparr> (inner reg)) reg)))"

definition deregister :: "string \<Rightarrow> string \<Rightarrow> service_registry \<Rightarrow> (string, string) rust_result \<times> service_registry" where
  "deregister name ns reg =
     (if poisoned reg then (Inl ''lock poisoned'', reg)
      else (Inr ''deregisterd service'', lock_set (hm_remove (slash_key ns name) (inner reg)) reg))"

definition selector_matches :: "(string, string) hash_map \<Rightarrow> (string, string) hash_map \<Rightarrow> bool" where
  "selector_matches selector pod_labels = list_all (\<lambda>(k, v). hm_get pod_labels k = Some v) selector"

definition find_service_for_pod :: "service_registry \<Rightarrow> pod_obj \<Rightarrow> (string \<times> string) option" where
  "find_service_for_pod reg pod =
     (case om_labels (po_metadata pod) of
        None \<Rightarrow> None
      | Some pod_labels \<Rightarrow>
          if poisoned reg then None
          else
            (case find (\<lambda>r. selector_matches (rs_selector r) pod_labels) (map snd (inner reg)) of
               None \<Rightarrow> None
             | Some r \<Rightarrow> Some (rs_name r, rs_service_type r)))"

section \<open>The client of Core\<close>

definition event_type_i32 :: "k8s_event_type \<Rightarrow> 32 word" where
  "event_type_i32 t = (case t of Applied \<Rightarrow> 0 | Deleted \<Rightarrow> 1)"

definition agg_pod_applied :: "string \<Rightarrow> string \<Rightarrow> string \<Rightarrow> string \<Rightarrow> string \<Rightarrow> rpc" where
  "agg_pod_applied pod_ip ns app svc svc_type = SendPodEvent
     \<lparr>pe_pod_ip = pod_ip, pe_namespace = ns, pe_event_type = event_type_i32 Applied,
      pe_application_name = app, pe_service_name = svc, pe_service_type = svc_type\<rparr>"

definition agg_pod_deleted :: "string \<Rightarrow> rpc" where
  "agg_pod_deleted pod_ip = SendPodEvent
     \<lparr>pe_pod_ip = pod_ip, pe_namespace = [], pe_event_type = event_type_i32 Deleted,
      pe_application_name = [], pe_service_name = [], pe_service_type = []\<rparr>"

definition agg_service_applied :: "string \<Rightarrow> string \<Rightarrow> string \<Rightarrow> string \<Rightarrow> rpc" where
  "agg_service_applied name ns svc_type cluster_ip = SendServiceEvent
     \<lparr>se_name = name, se_namespace = ns, se_service_type = svc_type, se_cluster_ip = cluster_ip,
      se_event_type = event_type_i32 Applied\<rparr>"

definition agg_service_deleted :: "string \<Rightarrow> string \<Rightarrow> rpc" where
  "agg_service_deleted name ns = SendServiceEvent
     \<lparr>se_name = name, se_namespace = ns, se_service_type = [], se_cluster_ip = [],
      se_event_type = event_type_i32 Deleted\<rparr>"

definition agg_configmap_applied :: "string \<Rightarrow> string \<Rightarrow> rpc" where
  "agg_configmap_applied name ns = SendConfigMapEvent
     \<lparr>cm_name = name, cm_namespace = ns, cm_event_type = event_type_i32 Applied\<rparr>"

definition agg_configmap_deleted :: "string \<Rightarrow> string \<Rightarrow> rpc" where
  "agg_configmap_deleted name ns = SendConfigMapEvent
     \<lparr>cm_name = name, cm_namespace = ns, cm_event_type = event_type_i32 Deleted\<rparr>"

definition agg_k8s_resource_event :: "string \<Rightarrow> string \<Rightarrow> string \<Rightarrow> k8s_event_type \<Rightarrow> (string, string) hash_map
    \<Rightarrow> string \<Rightarrow> rpc" where
  "agg_k8s_resource_event rtype name ns etype labels rdata = SendK8sResourceEvent
     \<lparr>rr_resource_type = rtype, rr_name = name, rr_namespace = ns, rr_event_type = event_type_i32 etype,
      rr_labels = labels, rr_resource_data = rdata\<rparr>"

definition agg_service_pod_map :: "(string \<times> string \<times> string \<times> string list) list \<Rightarrow> rpc" where
  "agg_service_pod_map entries = SendServicePodMap
     (map (\<lambda>(service_name, ns, service_type, pod_ips).
        \<lparr>sp_service_name = service_name, sp_namespace = ns, sp_service_type = service_type,
         sp_pod_ips = pod_ips, sp_application_name = service_name\<rparr>) entries)"

record envoy_route =
  ro_domain :: string
  ro_service_name :: string
  ro_namespace :: string

definition agg_envoy_routes :: "envoy_route list \<Rightarrow> rpc" where
  "agg_envoy_routes routes = SendEnvoyRoutes
     (map (\<lambda>r. \<lparr>er_domain = ro_domain r, er_service_name = ro_service_name r, er_namespace = ro_namespace r\<rparr>) routes)"

section \<open>Handlers\<close>

record agent_state =
  registry :: service_registry
  outbox :: "rpc list"

text \<open>\<open>outbox\<close> is the history of the requests handed to a task that sends them
  (\<open>tokio::spawn(async move { aggregator.send_\<dots>(\<dots>).await })\<close>), in the order of the hand-over. It is
  no queue: nothing is known of the order of delivery, and a send that fails is logged and its
  request lost. Delivery is modelled in theory \<open>Qubit_System\<close>, whose steps take requests from this
  history in any order or lose them.\<close>

definition spawn_send :: "rpc \<Rightarrow> agent_state \<Rightarrow> agent_state" where
  "spawn_send r a = a\<lparr>outbox := outbox a @ [r]\<rparr>"

text \<open>The trait \<open>EventHandler\<close>: four callbacks.\<close>

record 'k event_handler =
  on_apply :: "'k \<Rightarrow> agent_state \<Rightarrow> agent_state"
  on_delete :: "'k \<Rightarrow> agent_state \<Rightarrow> agent_state"
  on_init_apply :: "'k \<Rightarrow> agent_state \<Rightarrow> agent_state"
  on_init_done :: "agent_state \<Rightarrow> agent_state"

subsection \<open>Pods\<close>

definition pod_ip :: "pod_obj \<Rightarrow> string option" where
  "pod_ip pod = Option.bind (po_status pod) ps_pod_ip"

definition pod_ip_and_namespace :: "pod_obj \<Rightarrow> (string \<times> string) option" where
  "pod_ip_and_namespace pod =
     Option.bind (po_status pod) (\<lambda>st. map_option (\<lambda>a. (a, str_or_default (om_namespace (po_metadata pod)))) (ps_pod_ip st))"

definition resolve_application_name :: "pod_obj \<Rightarrow> string \<Rightarrow> string" where
  "resolve_application_name pod service_name =
     (if service_name \<noteq> [] then service_name
      else
        let labels = om_labels (po_metadata pod);
            label = (\<lambda>k. Option.bind labels (\<lambda>l. hm_get l k))
        in case label ''app.kubernetes.io/name'' of
             Some name \<Rightarrow> name
           | None \<Rightarrow>
               (case label ''app.k8s.io/name'' of
                  Some name \<Rightarrow> name
                | None \<Rightarrow>
                    (case label ''app'' of
                       Some name \<Rightarrow> name
                     | None \<Rightarrow> str_or_default (om_name (po_metadata pod)))))"

definition pod_on_apply :: "pod_obj \<Rightarrow> agent_state \<Rightarrow> agent_state" where
  "pod_on_apply pod a =
     (case pod_ip_and_namespace pod of
        None \<Rightarrow> a
      | Some (addr, ns) \<Rightarrow>
          let (service_name, service_type) =
                (case find_service_for_pod (registry a) pod of None \<Rightarrow> ([], []) | Some p \<Rightarrow> p);
              application_name = resolve_application_name pod service_name
          in spawn_send (agg_pod_applied addr ns application_name service_name service_type) a)"

definition pod_on_delete :: "pod_obj \<Rightarrow> agent_state \<Rightarrow> agent_state" where
  "pod_on_delete pod a = (case pod_ip pod of None \<Rightarrow> a | Some addr \<Rightarrow> spawn_send (agg_pod_deleted addr) a)"

definition pod_handler :: "pod_obj event_handler" where
  "pod_handler = \<lparr>on_apply = pod_on_apply, on_delete = pod_on_delete, on_init_apply = (\<lambda>_ a. a), on_init_done = (\<lambda>a. a)\<rparr>"

subsection \<open>Services\<close>

definition extract_fields :: "service_obj \<Rightarrow> (string \<times> string \<times> string \<times> string) option" where
  "extract_fields svc =
     Option.bind (om_name (sv_metadata svc)) (\<lambda>name.
     Option.bind (sv_spec svc) (\<lambda>spec.
       Some (name, str_or_default (om_namespace (sv_metadata svc)),
             (case ss_type spec of None \<Rightarrow> ''ClusterIP'' | Some t \<Rightarrow> t), str_or_default (ss_cluster_ip spec))))"

definition service_on_apply :: "service_obj \<Rightarrow> agent_state \<Rightarrow> agent_state" where
  "service_on_apply svc a =
     (let a1 = a\<lparr>registry := snd (register svc (registry a))\<rparr> in
      case extract_fields svc of
        None \<Rightarrow> a1
      | Some (name, ns, service_type, cluster_ip) \<Rightarrow>
          spawn_send (agg_service_applied name ns service_type cluster_ip) a1)"

definition service_on_delete :: "service_obj \<Rightarrow> agent_state \<Rightarrow> agent_state" where
  "service_on_delete svc a =
     (let name = str_or_default (om_name (sv_metadata svc));
          ns = str_or_default (om_namespace (sv_metadata svc));
          a1 = a\<lparr>registry := snd (deregister name ns (registry a))\<rparr>
      in spawn_send (agg_service_deleted name ns) a1)"

definition service_handler :: "service_obj event_handler" where
  "service_handler = \<lparr>on_apply = service_on_apply, on_delete = service_on_delete,
     on_init_apply = service_on_apply, on_init_done = (\<lambda>a. a)\<rparr>"

subsection \<open>Config maps\<close>

text \<open>\<open>parse_envoy_routes\<close> is the function of theory \<open>Envoy_Parser\<close>.\<close>

definition configmap_on_apply :: "(string \<Rightarrow> envoy_route list) \<Rightarrow> config_map_obj \<Rightarrow> agent_state \<Rightarrow> agent_state" where
  "configmap_on_apply parse_routes cm a =
     (let name = str_or_default (om_name (co_metadata cm));
          ns = str_or_default (om_namespace (co_metadata cm));
          a1 = (case Option.bind (co_data cm) (\<lambda>d. hm_get d ''envoy.yaml'') of
                  None \<Rightarrow> a
                | Some envoy_yaml \<Rightarrow>
                    let routes = parse_routes envoy_yaml in
                    if routes \<noteq> [] then spawn_send (agg_envoy_routes routes) a else a)
      in spawn_send (agg_configmap_applied name ns) a1)"

definition configmap_on_delete :: "config_map_obj \<Rightarrow> agent_state \<Rightarrow> agent_state" where
  "configmap_on_delete cm a =
     spawn_send (agg_configmap_deleted (str_or_default (om_name (co_metadata cm)))
       (str_or_default (om_namespace (co_metadata cm)))) a"

definition configmap_handler :: "(string \<Rightarrow> envoy_route list) \<Rightarrow> config_map_obj event_handler" where
  "configmap_handler parse_routes = \<lparr>on_apply = configmap_on_apply parse_routes, on_delete = configmap_on_delete,
     on_init_apply = configmap_on_apply parse_routes, on_init_done = (\<lambda>a. a)\<rparr>"

subsection \<open>Events\<close>

definition escape_json :: "string \<Rightarrow> string" where
  "escape_json s =
     replace_char (CHR 0x0D) [CHR 0x5C, CHR ''r'']
       (replace_char (CHR 0x0A) [CHR 0x5C, CHR ''n'']
         (replace_char (CHR 0x22) [CHR 0x5C, CHR 0x22]
           (replace_char (CHR 0x5C) [CHR 0x5C, CHR 0x5C] s)))"

text \<open>The \<open>Display\<close> of an \<open>i32\<close>.\<close>

definition i32_str :: "32 word \<Rightarrow> string" where
  "i32_str w = (if sint w < 0 then CHR ''-'' # nat_str (nat (- sint w)) else nat_str (nat (sint w)))"

definition quoted :: "string \<Rightarrow> string" where
  "quoted s = [CHR 0x22] @ s @ [CHR 0x22]"

definition build_event_data :: "event_obj \<Rightarrow> string" where
  "build_event_data ev =
     (let reason = str_or_default (eo_reason ev);
          message = str_or_default (eo_message ev);
          event_type = (case eo_type ev of None \<Rightarrow> ''Normal'' | Some t \<Rightarrow> t);
          count = (case eo_count ev of None \<Rightarrow> 1 | Some n \<Rightarrow> n);
          involved_kind = str_or_default (or_kind (eo_involved ev));
          involved_name = str_or_default (or_name (eo_involved ev));
          involved_namespace = str_or_default (or_namespace (eo_involved ev))
      in ''{'' @ quoted ''reason'' @ '':'' @ quoted (escape_json reason) @ '','' @
         quoted ''message'' @ '':'' @ quoted (escape_json message) @ '','' @
         quoted ''type'' @ '':'' @ quoted (escape_json event_type) @ '','' @
         quoted ''count'' @ '':'' @ i32_str count @ '','' @
         quoted ''involved_kind'' @ '':'' @ quoted (escape_json involved_kind) @ '','' @
         quoted ''involved_name'' @ '':'' @ quoted (escape_json involved_name) @ '','' @
         quoted ''involved_namespace'' @ '':'' @ quoted (escape_json involved_namespace) @ ''}'')"

definition event_on_apply :: "event_obj \<Rightarrow> agent_state \<Rightarrow> agent_state" where
  "event_on_apply ev a =
     spawn_send (agg_k8s_resource_event ''Event'' (str_or_default (om_name (eo_metadata ev)))
       (str_or_default (om_namespace (eo_metadata ev))) Applied
       (hm_collect (map_or_default (om_labels (eo_metadata ev)))) (build_event_data ev)) a"

definition k8s_event_handler :: "event_obj event_handler" where
  "k8s_event_handler = \<lparr>on_apply = event_on_apply, on_delete = (\<lambda>_ a. a), on_init_apply = event_on_apply,
     on_init_done = (\<lambda>a. a)\<rparr>"

subsection \<open>Other resources\<close>

text \<open>Any other resource is handled through its metadata; \<open>meta\<close> is \<open>Resource::meta\<close>.\<close>

definition extract_metadata :: "object_meta \<Rightarrow> string \<times> string \<times> (string, string) hash_map" where
  "extract_metadata meta = (str_or_default (om_name meta), str_or_default (om_namespace meta),
     hm_collect (map_or_default (om_labels meta)))"

definition generic_on_apply :: "string \<Rightarrow> object_meta \<Rightarrow> agent_state \<Rightarrow> agent_state" where
  "generic_on_apply rtype meta a =
     (let (name, ns, labels) = extract_metadata meta
      in spawn_send (agg_k8s_resource_event rtype name ns Applied labels []) a)"

definition generic_on_delete :: "string \<Rightarrow> object_meta \<Rightarrow> agent_state \<Rightarrow> agent_state" where
  "generic_on_delete rtype meta a =
     (let (name, ns, labels) = extract_metadata meta
      in spawn_send (agg_k8s_resource_event rtype name ns Deleted labels []) a)"

definition generic_handler :: "string \<Rightarrow> object_meta event_handler" where
  "generic_handler rtype = \<lparr>on_apply = generic_on_apply rtype,
     on_delete = generic_on_delete rtype, on_init_apply = generic_on_apply rtype,
     on_init_done = (\<lambda>a. a)\<rparr>"

section \<open>The watch loop\<close>

datatype 'k watch_event = WApply 'k | WDelete 'k | WInit | WInitApply 'k | WInitDone

fun dispatch :: "'k event_handler \<Rightarrow> 'k watch_event \<Rightarrow> agent_state \<Rightarrow> agent_state" where
  "dispatch H (WApply obj) a = on_apply H obj a"
| "dispatch H (WDelete obj) a = on_delete H obj a"
| "dispatch H WInit a = a"
| "dispatch H (WInitApply obj) a = on_init_apply H obj a"
| "dispatch H WInitDone a = on_init_done H a"

text \<open>The items the watcher delivered until its stream ended.\<close>

fun informer_start :: "string \<Rightarrow> 'k event_handler \<Rightarrow> ('k watch_event, string) rust_result list \<Rightarrow> agent_state
    \<Rightarrow> (unit, string) rust_result \<times> agent_state" where
  "informer_start type_name H [] a = (Inr (), a)"
| "informer_start type_name H (Inr ev # evs) a = informer_start type_name H evs (dispatch H ev a)"
| "informer_start type_name H (Inl e # evs) a = (Inl (type_name @ '' watcher error: '' @ e), a)"

section \<open>The snapshot\<close>

definition snapshot_entry :: "pod_obj list \<Rightarrow> service_obj \<Rightarrow> (string \<times> string \<times> string \<times> string list) option" where
  "snapshot_entry pods svc =
     Option.bind (om_name (sv_metadata svc)) (\<lambda>name.
     Option.bind (sv_spec svc) (\<lambda>spec.
       let ns = str_or_default (om_namespace (sv_metadata svc));
           selector = map_or_default (ss_selector spec);
           service_type = (case ss_type spec of None \<Rightarrow> ''ClusterIP'' | Some t \<Rightarrow> t)
       in if selector = [] then None
          else
            let pod_ips = List.map_filter pod_ip
                  (filter (\<lambda>pod. list_all (\<lambda>(k, v). Option.bind (om_labels (po_metadata pod)) (\<lambda>l. hm_get l k) = Some v)
                             selector) pods)
            in if pod_ips \<noteq> [] then Some (name, ns, service_type, pod_ips) else None))"

text \<open>The two lists come from the API server; the request that is sent.\<close>

definition send_initial_pod_service_map :: "service_obj list \<Rightarrow> pod_obj list \<Rightarrow> rpc" where
  "send_initial_pod_service_map services pods = agg_service_pod_map (List.map_filter (snapshot_entry pods) services)"

definition send_envoy_routes_from_configmaps :: "(string \<Rightarrow> envoy_route list) \<Rightarrow> config_map_obj list \<Rightarrow> rpc option" where
  "send_envoy_routes_from_configmaps parse_routes cms =
     (let all_routes = concat (map (\<lambda>cm. case Option.bind (co_data cm) (\<lambda>d. hm_get d ''envoy.yaml'') of
                                          None \<Rightarrow> [] | Some envoy_yaml \<Rightarrow> parse_routes envoy_yaml) cms)
      in if all_routes \<noteq> [] then Some (agg_envoy_routes all_routes) else None)"

text \<open>A service selects a pod.\<close>

definition selects :: "service_obj \<Rightarrow> pod_obj \<Rightarrow> bool" where
  "selects svc pod \<longleftrightarrow> om_name (sv_metadata svc) \<noteq> None \<and>
     (case sv_spec svc of
        None \<Rightarrow> False
      | Some spec \<Rightarrow> map_or_default (ss_selector spec) \<noteq> [] \<and>
          list_all (\<lambda>(k, v). Option.bind (om_labels (po_metadata pod)) (\<lambda>l. hm_get l k) = Some v)
            (map_or_default (ss_selector spec)))"

definition sample_service :: "string \<Rightarrow> string \<Rightarrow> (string, string) hash_map \<Rightarrow> service_obj" where
  "sample_service name ns selector =
     \<lparr>sv_metadata = \<lparr>om_name = Some name, om_namespace = Some ns, om_labels = None\<rparr>,
      sv_spec = Some \<lparr>ss_selector = Some selector, ss_type = Some ''ClusterIP'', ss_cluster_ip = None\<rparr>\<rparr>"

definition sample_pod :: "string \<Rightarrow> string \<Rightarrow> (string, string) hash_map \<Rightarrow> string \<Rightarrow> pod_obj" where
  "sample_pod name ns labels addr =
     \<lparr>po_metadata = \<lparr>om_name = Some name, om_namespace = Some ns, om_labels = Some labels\<rparr>,
      po_status = Some \<lparr>ps_pod_ip = Some addr\<rparr>\<rparr>"

section \<open>What every handler keeps\<close>

text \<open>
  The registry is well formed: distinct keys, every entry stands under the key
  of its own name, and no entry has an empty selector (which would match every
  pod); its lock is healthy.
\<close>

definition registry_ok :: "service_registry \<Rightarrow> bool" where
  "registry_ok reg \<longleftrightarrow> \<not> poisoned reg \<and> hm_ok (inner reg) \<and>
     (\<forall>(k, r) \<in> set (inner reg). rs_selector r \<noteq> [] \<and> (\<exists>ns. k = slash_key ns (rs_name r)))"

definition empty_agent :: agent_state where
  "empty_agent = \<lparr>registry = new_lock [], outbox = []\<rparr>"

text \<open>The contract of a handler: it keeps the registry well formed and only adds to the history of requests.\<close>

locale watch_handler =
  fixes H :: "'k event_handler"
  assumes keeps_apply: "registry_ok (registry a) \<Longrightarrow> registry_ok (registry (on_apply H k a))"
    and keeps_delete: "registry_ok (registry a) \<Longrightarrow> registry_ok (registry (on_delete H k a))"
    and keeps_init_apply: "registry_ok (registry a) \<Longrightarrow> registry_ok (registry (on_init_apply H k a))"
    and keeps_init_done: "registry_ok (registry a) \<Longrightarrow> registry_ok (registry (on_init_done H a))"
    and grows_apply: "\<exists>out. outbox (on_apply H k a) = outbox a @ out"
    and grows_delete: "\<exists>out. outbox (on_delete H k a) = outbox a @ out"
    and grows_init_apply: "\<exists>out. outbox (on_init_apply H k a) = outbox a @ out"
    and grows_init_done: "\<exists>out. outbox (on_init_done H a) = outbox a @ out"
begin

lemma dispatch_keeps: "registry_ok (registry a) \<Longrightarrow> registry_ok (registry (dispatch H ev a))"
  by (cases ev) (simp_all add: keeps_apply keeps_delete keeps_init_apply keeps_init_done)

lemma dispatch_grows: "\<exists>out. outbox (dispatch H ev a) = outbox a @ out"
  by (cases ev) (simp_all add: grows_apply grows_delete grows_init_apply grows_init_done)

lemma watch_keeps: "registry_ok (registry a) \<Longrightarrow> registry_ok (registry (snd (informer_start n H evs a)))"
proof (induction evs arbitrary: a)
  case (Cons ev evs)
  then show ?case by (cases ev) (simp_all add: dispatch_keeps)
qed simp

lemma watch_grows: "\<exists>out. outbox (snd (informer_start n H evs a)) = outbox a @ out"
proof (induction evs arbitrary: a)
  case (Cons ev evs)
  show ?case
  proof (cases ev)
    case (Inr x)
    obtain o1 where "outbox (dispatch H x a) = outbox a @ o1" using dispatch_grows by blast
    moreover obtain o2 where "outbox (snd (informer_start n H evs (dispatch H x a))) = outbox (dispatch H x a) @ o2"
      using Cons by blast
    ultimately show ?thesis using Inr by simp
  qed simp
qed simp

end

text \<open>The loop delivers events in order, and none after an error of the watcher.\<close>

lemma watch_all: "informer_start n H (map Inr xs) a = (Inr (), fold (dispatch H) xs a)"
  by (induction xs arbitrary: a) simp_all

lemma watch_error:
  "informer_start n H (map Inr xs @ Inl e # evs) a = (Inl (n @ '' watcher error: '' @ e), fold (dispatch H) xs a)"
  by (induction xs arbitrary: a) simp_all

lemma spawn_send_sel [simp]:
  "registry (spawn_send r a) = registry a" "outbox (spawn_send r a) = outbox a @ [r]"
  by (simp_all add: spawn_send_def)

lemma registry_ok_register: "registry_ok reg \<Longrightarrow> registry_ok (snd (register svc reg))"
proof -
  assume ok: "registry_ok reg"
  have "registry_ok (lock_set (hm_insert (slash_key ns (rs_name r)) r (inner reg)) reg)"
    if "rs_selector r \<noteq> []" for ns r
  proof -
    have "set (hm_insert k r m) \<subseteq> insert (k, r) (set m)" for k m by (induction m) auto
    then show ?thesis using ok that unfolding registry_ok_def by (fastforce simp: subset_iff)
  qed
  from this [of "\<lparr>rs_name = _, rs_service_type = _, rs_selector = _\<rparr>"] show ?thesis
    using ok by (simp add: register_def Let_def split: option.split)
qed

lemma registry_ok_deregister: "registry_ok reg \<Longrightarrow> registry_ok (snd (deregister name ns reg))"
proof -
  assume ok: "registry_ok reg"
  have "set (hm_remove k m) \<subseteq> set m" for k and m :: "(string, registered_service) hash_map" by (induction m) auto
  then have "\<forall>p \<in> set (hm_remove k (inner reg)). P p" if "\<forall>p \<in> set (inner reg). P p" for P k
    using that by blast
  from this [of "\<lambda>(k, r). rs_selector r \<noteq> [] \<and> (\<exists>ns. k = slash_key ns (rs_name r))"]
  show ?thesis using ok by (simp add: registry_ok_def deregister_def)
qed

interpretation wh_service: watch_handler service_handler
  by unfold_locales
     (simp_all add: service_handler_def service_on_apply_def service_on_delete_def Let_def
        registry_ok_register registry_ok_deregister split: option.split prod.split)

interpretation wh_pod: watch_handler pod_handler
  by unfold_locales
     (simp_all add: pod_handler_def pod_on_apply_def pod_on_delete_def Let_def split: option.split prod.split)

interpretation wh_configmap: watch_handler "configmap_handler parse_routes" for parse_routes
  by unfold_locales
     (simp_all add: configmap_handler_def configmap_on_apply_def configmap_on_delete_def Let_def split: option.split)

interpretation wh_event: watch_handler k8s_event_handler
  by unfold_locales (simp_all add: k8s_event_handler_def event_on_apply_def)

interpretation wh_generic: watch_handler "generic_handler rtype" for rtype
  by unfold_locales
     (simp_all add: generic_handler_def generic_on_apply_def generic_on_delete_def split: prod.split)

section \<open>Label matching\<close>

lemma find_SomeD: "find P xs = Some x \<Longrightarrow> x \<in> set xs \<and> P x"
  by (induction xs) (auto split: if_splits)

lemma find_service_iff:
  assumes "registry_ok reg"
  shows "find_service_for_pod reg pod = None \<longleftrightarrow>
    (case om_labels (po_metadata pod) of
       None \<Rightarrow> True
     | Some labels \<Rightarrow> \<forall>r \<in> snd ` set (inner reg). \<not> selector_matches (rs_selector r) labels)"
  using assms by (auto simp: find_service_for_pod_def registry_ok_def find_None_iff split: option.splits dest!: find_SomeD)

lemma find_service_sound:
  assumes "registry_ok reg" and "find_service_for_pod reg pod = Some (name, ty)"
  shows "\<exists>labels r. om_labels (po_metadata pod) = Some labels \<and> r \<in> snd ` set (inner reg) \<and>
    rs_name r = name \<and> rs_service_type r = ty \<and> rs_selector r \<noteq> [] \<and> selector_matches (rs_selector r) labels"
proof -
  obtain labels r where lr: "om_labels (po_metadata pod) = Some labels"
      "find (\<lambda>r. selector_matches (rs_selector r) labels) (map snd (inner reg)) = Some r"
      "name = rs_name r" "ty = rs_service_type r"
    using assms(2) by (auto simp: find_service_for_pod_def split: option.splits if_splits)
  then have r: "r \<in> snd ` set (inner reg)" "selector_matches (rs_selector r) labels"
    using find_SomeD [OF lr(2)] by auto
  then have "rs_selector r \<noteq> []" using assms(1) by (auto simp: registry_ok_def)
  then show ?thesis using lr r by blast
qed

lemma registry_ok_empty: "registry_ok (registry empty_agent)"
  by (simp add: registry_ok_def empty_agent_def)

section \<open>The snapshot\<close>

lemma find_rev_map_filter:
  "find P (rev (map g (List.map_filter f xs))) =
     (case find (\<lambda>x. \<exists>y. f x = Some y \<and> P (g y)) (rev xs) of None \<Rightarrow> None | Some x \<Rightarrow> map_option g (f x))"
proof -
  have "find P (map g (List.map_filter f ys)) =
      (case find (\<lambda>x. \<exists>y. f x = Some y \<and> P (g y)) ys of None \<Rightarrow> None | Some x \<Rightarrow> map_option g (f x))" for ys
    by (induction ys) (auto simp: List.map_filter_def split: option.splits)
  moreover have "rev (map g (List.map_filter f xs)) = map g (List.map_filter f (rev xs))"
    by (simp add: List.map_filter_def rev_map rev_filter)
  ultimately show ?thesis by simp
qed

lemma snapshot_entry_eq:
  "snapshot_entry pods svc =
     (let ips = List.map_filter pod_ip (filter (selects svc) pods) in
      if ips = [] then None
      else Some (str_or_default (om_name (sv_metadata svc)), str_or_default (om_namespace (sv_metadata svc)),
                 (case ss_type (the (sv_spec svc)) of None \<Rightarrow> ''ClusterIP'' | Some t \<Rightarrow> t), ips))"
proof (cases "om_name (sv_metadata svc) = None \<or> sv_spec svc = None \<or> map_or_default (ss_selector (the (sv_spec svc))) = []")
  case True
  then have "\<not> selects svc pod" for pod by (auto simp: selects_def split: option.split)
  then show ?thesis
    using True by (cases "om_name (sv_metadata svc)"; cases "sv_spec svc")
      (simp_all add: snapshot_entry_def List.map_filter_def Let_def)
next
  case False
  then obtain name spec where ok: "om_name (sv_metadata svc) = Some name" "sv_spec svc = Some spec"
      "map_or_default (ss_selector spec) \<noteq> []"
    by auto
  then have "selects svc = (\<lambda>pod. list_all (\<lambda>(k, v). Option.bind (om_labels (po_metadata pod)) (\<lambda>l. hm_get l k) = Some v)
      (map_or_default (ss_selector spec)))"
    by (simp add: fun_eq_iff selects_def)
  then show ?thesis using ok by (simp add: snapshot_entry_def str_or_default_def Let_def)
qed

lemma in_map_filter: "x \<in> set (List.map_filter f xs) \<longleftrightarrow> (\<exists>y \<in> set xs. f y = Some x)"
  by (force simp: List.map_filter_def)

lemma map_filter_empty: "List.map_filter f xs = [] \<longleftrightarrow> (\<forall>x \<in> set xs. f x = None)"
  by (induction xs) (auto simp: List.map_filter_def split: if_splits)

lemma entry_lists:
  "(\<exists>y. snapshot_entry pods svc = Some y \<and> addr \<in> set (sp_pod_ips ((\<lambda>(service_name, ns, service_type, pod_ips).
      \<lparr>sp_service_name = service_name, sp_namespace = ns, sp_service_type = service_type,
       sp_pod_ips = pod_ips, sp_application_name = service_name\<rparr>) y))) \<longleftrightarrow>
   (\<exists>pod \<in> set pods. pod_ip pod = Some addr \<and> selects svc pod)"
proof -
  let ?ips = "List.map_filter pod_ip (filter (selects svc) pods)"
  have "addr \<in> set ?ips \<longleftrightarrow> (\<exists>pod \<in> set pods. pod_ip pod = Some addr \<and> selects svc pod)"
    by (auto simp: in_map_filter)
  then show ?thesis by (auto simp: snapshot_entry_eq Let_def)
qed

section \<open>JSON strings\<close>

text \<open>What a JSON reader makes of the four escapes.\<close>

fun unescape_json :: "string \<Rightarrow> string" where
  "unescape_json [] = []"
| "unescape_json [c] = [c]"
| "unescape_json (c # d # cs) =
     (if c = CHR 0x5C
      then (if d = CHR ''n'' then CHR 0x0A else if d = CHR ''r'' then CHR 0x0D else d) # unescape_json cs
      else c # unescape_json (d # cs))"

text \<open>Where a JSON string that has been opened ends: the first quote that is not escaped.\<close>

fun json_string_end :: "string \<Rightarrow> (string \<times> string) option" where
  "json_string_end [] = None"
| "json_string_end [c] = (if c = CHR 0x22 then Some ([], []) else None)"
| "json_string_end (c # d # cs) =
     (if c = CHR 0x22 then Some ([], d # cs)
      else if c = CHR 0x5C then map_option (\<lambda>(s, r). (c # d # s, r)) (json_string_end cs)
      else map_option (\<lambda>(s, r). (c # s, r)) (json_string_end (d # cs)))"

definition escape_char :: "char \<Rightarrow> string" where
  "escape_char c =
     (if c = CHR 0x5C then [CHR 0x5C, CHR 0x5C] else if c = CHR 0x22 then [CHR 0x5C, CHR 0x22]
      else if c = CHR 0x0A then [CHR 0x5C, CHR ''n''] else if c = CHR 0x0D then [CHR 0x5C, CHR ''r''] else [c])"

text \<open>The four replacements in sequence act on each character once.\<close>

lemma escape_json_chars: "escape_json s = concat (map escape_char s)"
  by (induction s) (simp_all add: escape_json_def replace_char_def escape_char_def)

lemma unescape_plain: "c \<noteq> CHR 0x5C \<Longrightarrow> unescape_json (c # cs) = c # unescape_json cs"
  by (cases cs) simp_all

lemma unescape_escape_char: "unescape_json (escape_char c @ r) = c # unescape_json r"
  by (simp add: escape_char_def unescape_plain)

lemma unescape_escape: "unescape_json (escape_json s @ r) = s @ unescape_json r"
  by (induction s) (simp_all add: escape_json_chars unescape_escape_char)

lemma end_plain:
  "c \<noteq> CHR 0x22 \<Longrightarrow> c \<noteq> CHR 0x5C \<Longrightarrow> json_string_end (c # cs) = map_option (\<lambda>(s, r). (c # s, r)) (json_string_end cs)"
  by (cases cs) simp_all

lemma end_escape_char:
  "json_string_end (escape_char c @ r) = map_option (\<lambda>(s, r). (escape_char c @ s, r)) (json_string_end r)"
  by (simp add: escape_char_def end_plain)

lemma end_quote: "json_string_end (CHR 0x22 # r) = Some ([], r)"
  by (cases r) simp_all

lemma end_escape: "json_string_end (escape_json s @ CHR 0x22 # r) = Some (escape_json s, r)"
  by (induction s) (simp_all add: escape_json_chars end_escape_char end_quote)

section \<open>Properties\<close>

text \<open>Whatever the service watcher delivers, including errors, label matching is exact on the
  registry it leaves: a pod without labels matches nothing; otherwise the answer is a registered
  service whose non-empty selector is contained in the pod's labels, and there is no answer only
  if no registered selector is contained in them. No request handed to Core is ever dropped.\<close>

theorem service_matching_exact:
  fixes n :: string and evs :: "(service_obj watch_event, string) rust_result list"
  defines "a \<equiv> snd (informer_start n service_handler evs empty_agent)"
  shows "(case find_service_for_pod (registry a) pod of
      None \<Rightarrow> (\<forall>labels. om_labels (po_metadata pod) = Some labels \<longrightarrow>
                 (\<forall>r \<in> snd ` set (inner (registry a)). \<not> selector_matches (rs_selector r) labels))
    | Some (name, ty) \<Rightarrow> (\<exists>labels r. om_labels (po_metadata pod) = Some labels \<and> r \<in> snd ` set (inner (registry a)) \<and>
         rs_name r = name \<and> rs_service_type r = ty \<and> rs_selector r \<noteq> [] \<and> selector_matches (rs_selector r) labels)) \<and>
    (\<exists>out. outbox (snd (informer_start n service_handler later a)) = outbox a @ out)"
proof -
  have ok: "registry_ok (registry a)"
    unfolding a_def by (rule wh_service.watch_keeps) (rule registry_ok_empty)
  show ?thesis
    using find_service_iff [OF ok, of pod] find_service_sound [OF ok, of pod] wh_service.watch_grows
    by (auto split: option.splits)
qed

theorem service_matching_exact_witness:
  "find_service_for_pod (registry (snd (informer_start ''Service'' service_handler
     [Inr (WApply (sample_service ''web'' ''prod'' [(''app'', ''web'')])), Inl ''gone''] empty_agent)))
     (sample_pod ''p'' ''prod'' [(''tier'', ''x'')] ''10.0.0.5'') = None"
  using service_matching_exact [where n = "''Service''" and later = "[]" and evs = "[Inr (WApply (sample_service ''web'' ''prod'' [(''app'', ''web'')])), Inl ''gone'']"
      and pod = "sample_pod ''p'' ''prod'' [(''tier'', ''x'')] ''10.0.0.5''"]
  by (auto simp: service_handler_def service_on_apply_def register_def empty_agent_def map_or_default_def
      sample_service_def sample_pod_def selector_matches_def extract_fields_def Let_def split: option.splits)

text \<open>C36. A pod notification reaches Core intact: the agent sends exactly one request for a pod with an
  address, Core accepts it, and from then on traffic from that address is attributed to the
  application the agent resolved (the matching service, else the pod's labels, else its name), in
  the pod's namespace; if that name is empty the address stays unattributed.\<close>

theorem pod_notification_reaches_core:
  fixes a :: agent_state and s :: "('p, 's, 'e) core_state"
  assumes "cache_laws (pods_ops K)" and "pod_ip_and_namespace pod = Some (addr, ns)"
  defines "svc \<equiv> (case find_service_for_pod (registry a) pod of None \<Rightarrow> ([], []) | Some p \<Rightarrow> p)"
  defines "app \<equiv> resolve_application_name pod (fst svc)"
  shows "\<exists>r. outbox (on_apply pod_handler pod a) = outbox a @ [r] \<and>
    fst (handle_rpc K to_json now r s) = ok_response ''ok'' \<and>
    source_of (pods_ops K) (pod_cache (snd (handle_rpc K to_json now r s))) addr =
      (if app = [] then None
       else Some \<lparr>pod_namespace = ns, pod_application_name = app, pod_service_name = fst svc, pod_service_type = snd svc\<rparr>) \<and>
    (\<forall>b. b \<noteq> addr \<longrightarrow> cache_get (pods_ops K) (pod_cache (snd (handle_rpc K to_json now r s))) b =
       cache_get (pods_ops K) (pod_cache s) b)"
proof -
  let ?r = "agg_pod_applied addr ns app (fst svc) (snd svc)"
  have "outbox (on_apply pod_handler pod a) = outbox a @ [?r]"
    using assms(2) by (simp add: pod_handler_def pod_on_apply_def app_def svc_def Let_def case_prod_unfold)
  moreover have "handle_rpc K to_json now ?r s = (ok_response ''ok'', record_pod_applied K addr ns app (fst svc) (snd svc) s)"
    by (simp add: agg_pod_applied_def send_pod_event_def k8s_event_type_try_from_def event_type_i32_def)
  ultimately show ?thesis
    by (intro exI [of _ ?r]) (simp add: source_of_def get_record_pod_applied [OF assms(1)])
qed

theorem pod_notification_reaches_core_witness:
  "\<exists>r. outbox (on_apply pod_handler (sample_pod ''web-1'' ''prod'' [(''app'', ''web'')] ''10.0.0.5'') empty_agent) = [r] \<and>
     source_of hash_cache (pod_cache (snd (handle_rpc hash_caches (\<lambda>_. ''{}'') 7 r (init_core hash_caches)))) ''10.0.0.5'' =
       Some \<lparr>pod_namespace = ''prod'', pod_application_name = ''web'', pod_service_name = [], pod_service_type = []\<rparr>"
  using pod_notification_reaches_core [of hash_caches "sample_pod ''web-1'' ''prod'' [(''app'', ''web'')] ''10.0.0.5''"
      "''10.0.0.5''" "''prod''" empty_agent "\<lambda>_. ''{}''" 7 "init_core hash_caches"]
  by (auto simp: hash_cache_laws pod_ip_and_namespace_def sample_pod_def str_or_default_def find_service_for_pod_def
      empty_agent_def resolve_application_name_def)

text \<open>The periodic snapshot is exact: after Core has handled it, an address resolves to the last
  listed service that selects a pod with that address, and is unchanged if no service selects
  one. A service selects by labels alone: the namespace of the pod plays no part.\<close>

theorem snapshot_resolves_selected:
  assumes "cache_laws (pods_ops K)"
  shows "cache_get (pods_ops K) (pod_cache (snd (handle_rpc K to_json now (send_initial_pod_service_map services pods) s))) addr =
    (case find (\<lambda>svc. \<exists>pod \<in> set pods. pod_ip pod = Some addr \<and> selects svc pod) (rev services) of
       None \<Rightarrow> cache_get (pods_ops K) (pod_cache s) addr
     | Some svc \<Rightarrow>
         Some \<lparr>pod_namespace = str_or_default (om_namespace (sv_metadata svc)),
               pod_application_name = str_or_default (om_name (sv_metadata svc)),
               pod_service_name = str_or_default (om_name (sv_metadata svc)),
               pod_service_type = (case ss_type (the (sv_spec svc)) of None \<Rightarrow> ''ClusterIP'' | Some t \<Rightarrow> t)\<rparr>)"
proof -
  let ?g = "\<lambda>(service_name, ns, service_type, pod_ips).
      \<lparr>sp_service_name = service_name, sp_namespace = ns, sp_service_type = service_type,
       sp_pod_ips = pod_ips, sp_application_name = service_name\<rparr>"
  have "cache_get (pods_ops K) (pod_cache (snd (handle_rpc K to_json now (send_initial_pod_service_map services pods) s))) addr =
    (case find (\<lambda>e. addr \<in> set (sp_pod_ips e)) (rev (map ?g (List.map_filter (snapshot_entry pods) services))) of
       None \<Rightarrow> cache_get (pods_ops K) (pod_cache s) addr
     | Some e \<Rightarrow> Some \<lparr>pod_namespace = sp_namespace e, pod_application_name = sp_application_name e,
                      pod_service_name = sp_service_name e, pod_service_type = sp_service_type e\<rparr>)"
    by (simp add: send_initial_pod_service_map_def agg_service_pod_map_def send_service_pod_map_def snapshot_lookup [OF assms])
  moreover have "find (\<lambda>svc. \<exists>pod \<in> set pods. pod_ip pod = Some addr \<and> selects svc pod) (rev services) = Some svc \<Longrightarrow>
      \<exists>ips. snapshot_entry pods svc = Some (str_or_default (om_name (sv_metadata svc)),
        str_or_default (om_namespace (sv_metadata svc)),
        (case ss_type (the (sv_spec svc)) of None \<Rightarrow> ''ClusterIP'' | Some t \<Rightarrow> t), ips)" for svc
    by (drule find_SomeD) (auto simp: snapshot_entry_eq Let_def map_filter_empty)
  ultimately show ?thesis
    unfolding find_rev_map_filter entry_lists by (fastforce split: option.splits)
qed

theorem snapshot_resolves_selected_witness:
  "cache_get hash_cache (pod_cache (snd (handle_rpc hash_caches (\<lambda>_. ''{}'') 7
     (send_initial_pod_service_map [sample_service ''web'' ''prod'' [(''app'', ''web'')]]
        [sample_pod ''web-1'' ''dev'' [(''app'', ''web'')] ''10.0.0.5'']) (init_core hash_caches)))) ''10.0.0.5'' =
   Some \<lparr>pod_namespace = ''prod'', pod_application_name = ''web'', pod_service_name = ''web'', pod_service_type = ''ClusterIP''\<rparr>"
  using snapshot_resolves_selected [of hash_caches "\<lambda>_. ''{}''" 7 "[sample_service ''web'' ''prod'' [(''app'', ''web'')]]"
      "[sample_pod ''web-1'' ''dev'' [(''app'', ''web'')] ''10.0.0.5'']" "init_core hash_caches" "''10.0.0.5''"]
  by (simp add: hash_cache_laws sample_service_def sample_pod_def pod_ip_def selects_def map_or_default_def str_or_default_def)

text \<open>C39. Hand-built JSON is sound for the characters it escapes: each field value ends at the quote the
  agent wrote, whatever follows, and reading the escapes back gives the original text.\<close>

theorem json_escape_roundtrip:
  "json_string_end (escape_json s @ CHR 0x22 # rest) = Some (escape_json s, rest) \<and>
   unescape_json (escape_json s) = s"
  using unescape_escape [of s "[]"] by (simp add: end_escape)

end
