(* ===== verification/Envoy_Parser.thy ===== *)
theory Envoy_Parser
  imports Cluster_Agent
begin

text \<open>
  The reader of static Envoy configurations, \<^verbatim>\<open>cluster-agent/src/kubernetes/envoy_parser.rs\<close>.
  YAML values come from the \<open>serde_yaml\<close> package: its operations are a parameter,
  a record of functions over an abstract type of values.
\<close>

section \<open>The parser\<close>

text \<open>\<open>from_str\<close>, \<open>value[key]\<close>, \<open>value[index]\<close>, \<open>as_sequence\<close>, \<open>as_str\<close> and \<open>is_mapping\<close>\<close>

record 'y yaml_ops =
  y_from_str :: "string \<Rightarrow> ('y, string) rust_result"
  y_get :: "'y \<Rightarrow> string \<Rightarrow> 'y"
  y_at :: "'y \<Rightarrow> nat \<Rightarrow> 'y"
  y_seq :: "'y \<Rightarrow> 'y list option"
  y_str :: "'y \<Rightarrow> string option"
  y_is_mapping :: "'y \<Rightarrow> bool"

text \<open>\<open>as_str().unwrap_or("")\<close> and a loop over \<open>as_sequence()\<close> that skips what is not one.\<close>

definition y_text :: "'y yaml_ops \<Rightarrow> 'y \<Rightarrow> string" where
  "y_text Y v = (case y_str Y v of None \<Rightarrow> [] | Some s \<Rightarrow> s)"

definition y_items :: "'y yaml_ops \<Rightarrow> 'y \<Rightarrow> 'y list" where
  "y_items Y v = (case y_seq Y v of None \<Rightarrow> [] | Some vs \<Rightarrow> vs)"

definition svc_namespace_from_fqdn :: "string \<Rightarrow> (string \<times> string) option" where
  "svc_namespace_from_fqdn host =
     (let parts = split_char (CHR ''.'') host in
      case position (\<lambda>p. p = ''svc'') parts of
        None \<Rightarrow> None
      | Some svc_pos \<Rightarrow> if svc_pos < 2 then None else Some (parts ! (svc_pos - 2), parts ! (svc_pos - 1)))"

definition cluster_address :: "'y yaml_ops \<Rightarrow> 'y \<Rightarrow> string" where
  "cluster_address Y cluster =
     y_text Y (y_get Y (y_get Y (y_get Y (y_get Y (y_at Y (y_get Y (y_at Y (y_get Y (y_get Y cluster
       ''load_assignment'') ''endpoints'') 0) ''lb_endpoints'') 0) ''endpoint'') ''address'') ''socket_address'') ''address'')"

text \<open>Pass 1, the body of the loop over the clusters.\<close>

definition add_cluster :: "'y yaml_ops \<Rightarrow> 'y \<Rightarrow> envoy_route list \<times> (string, string \<times> string) hash_map
    \<Rightarrow> envoy_route list \<times> (string, string \<times> string) hash_map" where
  "add_cluster Y cluster = (\<lambda>(routes, cluster_map).
     case y_str Y (y_get Y cluster ''name'') of
       None \<Rightarrow> (routes, cluster_map)
     | Some name \<Rightarrow>
         if name = [] then (routes, cluster_map)
         else
           let addr = cluster_address Y cluster in
           (case svc_namespace_from_fqdn addr of
              None \<Rightarrow> (routes, cluster_map)
            | Some (svc, ns) \<Rightarrow>
                (routes @ [\<lparr>ro_domain = addr, ro_service_name = svc, ro_namespace = ns\<rparr>],
                 hm_insert name (svc, ns) cluster_map)))"

text \<open>Pass 2, from the innermost loop outwards.\<close>

definition is_wildcard :: "string \<Rightarrow> bool" where
  "is_wildcard d \<longleftrightarrow> d = ''*'' \<or> starts_with d ''*.''"

definition domain_route :: "'y yaml_ops \<Rightarrow> string \<times> string \<Rightarrow> 'y \<Rightarrow> envoy_route list" where
  "domain_route Y mapping domain =
     (case y_str Y domain of
        None \<Rightarrow> []
      | Some d \<Rightarrow> if is_wildcard d then []
                  else [\<lparr>ro_domain = d, ro_service_name = fst mapping, ro_namespace = snd mapping\<rparr>])"

definition vhost_routes :: "'y yaml_ops \<Rightarrow> (string, string \<times> string) hash_map \<Rightarrow> 'y \<Rightarrow> envoy_route list" where
  "vhost_routes Y cluster_map vh =
     (let cluster_name = y_text Y (y_get Y (y_get Y (y_at Y (y_get Y vh ''routes'') 0) ''route'') ''cluster'') in
      case hm_get cluster_map cluster_name of
        None \<Rightarrow> []
      | Some mapping \<Rightarrow> concat (map (domain_route Y mapping) (y_items Y (y_get Y vh ''domains''))))"

definition filter_routes :: "'y yaml_ops \<Rightarrow> (string, string \<times> string) hash_map \<Rightarrow> 'y \<Rightarrow> envoy_route list" where
  "filter_routes Y cluster_map flt =
     (let typed = y_get Y (y_get Y flt ''typed_config'') ''route_config''; direct = y_get Y flt ''route_config'' in
      if y_is_mapping Y typed then concat (map (vhost_routes Y cluster_map) (y_items Y (y_get Y typed ''virtual_hosts'')))
      else if y_is_mapping Y direct then concat (map (vhost_routes Y cluster_map) (y_items Y (y_get Y direct ''virtual_hosts'')))
      else [])"

definition listener_routes :: "'y yaml_ops \<Rightarrow> (string, string \<times> string) hash_map \<Rightarrow> 'y \<Rightarrow> envoy_route list" where
  "listener_routes Y cluster_map listener =
     concat (map (\<lambda>fc. concat (map (filter_routes Y cluster_map) (y_items Y (y_get Y fc ''filters''))))
       (y_items Y (y_get Y listener ''filter_chains'')))"

definition parse_envoy_routes :: "'y yaml_ops \<Rightarrow> string \<Rightarrow> envoy_route list" where
  "parse_envoy_routes Y yaml_str =
     (case y_from_str Y yaml_str of
        Inl _ \<Rightarrow> []
      | Inr v \<Rightarrow>
          let static = y_get Y v ''static_resources'';
              (routes, cluster_map) = fold (add_cluster Y) (y_items Y (y_get Y static ''clusters'')) ([], [])
          in routes @ concat (map (listener_routes Y cluster_map) (y_items Y (y_get Y static ''listeners''))))"

text \<open>A value type that has the operations, for examples.\<close>

datatype yaml = YNull | YStr string | YSeq "yaml list" | YMap "(string \<times> yaml) list"

fun yaml_get :: "yaml \<Rightarrow> string \<Rightarrow> yaml" where
  "yaml_get (YMap kvs) k = (case map_of kvs k of None \<Rightarrow> YNull | Some v \<Rightarrow> v)"
| "yaml_get _ k = YNull"

fun yaml_at :: "yaml \<Rightarrow> nat \<Rightarrow> yaml" where
  "yaml_at (YSeq vs) i = (if i < length vs then vs ! i else YNull)"
| "yaml_at _ i = YNull"

definition yaml_values :: "yaml \<Rightarrow> yaml yaml_ops" where
  "yaml_values doc = \<lparr>y_from_str = (\<lambda>_. Inr doc), y_get = yaml_get, y_at = yaml_at,
     y_seq = (\<lambda>v. case v of YSeq vs \<Rightarrow> Some vs | _ \<Rightarrow> None), y_str = (\<lambda>v. case v of YStr s \<Rightarrow> Some s | _ \<Rightarrow> None),
     y_is_mapping = (\<lambda>v. case v of YMap _ \<Rightarrow> True | _ \<Rightarrow> False)\<rparr>"

definition sample_envoy :: yaml where
  "sample_envoy = YMap [(''static_resources'', YMap
     [(''clusters'', YSeq [YMap [(''name'', YStr ''web''), (''load_assignment'', YMap [(''endpoints'', YSeq [YMap
         [(''lb_endpoints'', YSeq [YMap [(''endpoint'', YMap [(''address'', YMap [(''socket_address'', YMap
           [(''address'', YStr ''web.prod.svc.cluster.local'')])])])]])]])])]]),
      (''listeners'', YSeq [YMap [(''filter_chains'', YSeq [YMap [(''filters'', YSeq [YMap
         [(''typed_config'', YMap [(''route_config'', YMap [(''virtual_hosts'', YSeq [YMap
           [(''domains'', YSeq [YStr ''*'', YStr ''shop.example'']),
            (''routes'', YSeq [YMap [(''route'', YMap [(''cluster'', YStr ''web'')])]])]])])])]])]])]])])]"

section \<open>Facts\<close>

text \<open>The virtual hosts of a file, in the order the parser visits them, and the cluster name one routes to.\<close>

definition virtual_hosts :: "'y yaml_ops \<Rightarrow> 'y \<Rightarrow> 'y list" where
  "virtual_hosts Y v =
     [vh. l \<leftarrow> y_items Y (y_get Y (y_get Y v ''static_resources'') ''listeners''),
          fc \<leftarrow> y_items Y (y_get Y l ''filter_chains''),
          flt \<leftarrow> y_items Y (y_get Y fc ''filters''),
          vh \<leftarrow> (if y_is_mapping Y (y_get Y (y_get Y flt ''typed_config'') ''route_config'')
                then y_items Y (y_get Y (y_get Y (y_get Y flt ''typed_config'') ''route_config'') ''virtual_hosts'')
                else if y_is_mapping Y (y_get Y flt ''route_config'')
                then y_items Y (y_get Y (y_get Y flt ''route_config'') ''virtual_hosts'') else [])]"

definition vhost_cluster :: "'y yaml_ops \<Rightarrow> 'y \<Rightarrow> string" where
  "vhost_cluster Y vh = y_text Y (y_get Y (y_get Y (y_at Y (y_get Y vh ''routes'') 0) ''route'') ''cluster'')"

text \<open>A cluster that counts: it has a name, and its address the form of a service address.\<close>

definition names_service :: "'y yaml_ops \<Rightarrow> 'y \<Rightarrow> string \<Rightarrow> string \<times> string \<Rightarrow> bool" where
  "names_service Y c name m \<longleftrightarrow> y_str Y (y_get Y c ''name'') = Some name \<and> name \<noteq> [] \<and>
     svc_namespace_from_fqdn (cluster_address Y c) = Some m"

lemma fqdn_parts:
  assumes "CHR ''.'' \<notin> set svc" "CHR ''.'' \<notin> set ns" "svc \<noteq> ''svc''" "ns \<noteq> ''svc''"
  shows "svc_namespace_from_fqdn (svc @ ''.'' @ ns @ ''.svc.'' @ domain) = Some (svc, ns)"
proof -
  have "CHR ''.'' \<notin> set ''svc''" by simp
  then have "split_char (CHR ''.'') (svc @ CHR ''.'' # ns @ CHR ''.'' # ''svc'' @ CHR ''.'' # domain) =
      svc # ns # ''svc'' # split_char (CHR ''.'') domain"
    using assms(1,2) split_char_append by metis
  then show ?thesis using assms(3,4) by (simp add: svc_namespace_from_fqdn_def)
qed

lemma add_cluster_names:
  "add_cluster Y c (routes, cmap) =
     (if \<exists>name m. names_service Y c name m
      then (routes @ [\<lparr>ro_domain = cluster_address Y c,
              ro_service_name = fst (the (svc_namespace_from_fqdn (cluster_address Y c))),
              ro_namespace = snd (the (svc_namespace_from_fqdn (cluster_address Y c)))\<rparr>],
            hm_insert (the (y_str Y (y_get Y c ''name''))) (the (svc_namespace_from_fqdn (cluster_address Y c))) cmap)
      else (routes, cmap))"
  by (auto simp: add_cluster_def names_service_def Let_def split: option.split)

text \<open>Pass 1: the routes are those of the clusters that count, and the map knows no other.\<close>

lemma add_cluster_pass:
  assumes "fold (add_cluster Y) cs (routes, cmap) = (routes', cmap')"
  shows "set routes' = set routes \<union> {\<lparr>ro_domain = cluster_address Y c, ro_service_name = fst m, ro_namespace = snd m\<rparr> |
      c name m. c \<in> set cs \<and> names_service Y c name m}"
    and "hm_get cmap' n = Some m \<Longrightarrow> hm_get cmap n = Some m \<or> (\<exists>c \<in> set cs. names_service Y c n m)"
proof -
  show "set routes' = set routes \<union> {\<lparr>ro_domain = cluster_address Y c, ro_service_name = fst m, ro_namespace = snd m\<rparr> |
      c name m. c \<in> set cs \<and> names_service Y c name m}"
    using assms
  proof (induction cs arbitrary: routes cmap)
    case (Cons c cs)
    obtain r1 m1 where step: "add_cluster Y c (routes, cmap) = (r1, m1)" by (metis surj_pair)
    have "set r1 = set routes \<union> {\<lparr>ro_domain = cluster_address Y c, ro_service_name = fst m, ro_namespace = snd m\<rparr> |
        name m. names_service Y c name m}"
      using step by (auto simp: add_cluster_names names_service_def split: if_splits)
    then show ?case using Cons.IH [of r1 m1] Cons.prems step by auto
  qed simp
  show "hm_get cmap n = Some m \<or> (\<exists>c \<in> set cs. names_service Y c n m)" if "hm_get cmap' n = Some m"
    using assms that
  proof (induction cs arbitrary: routes cmap)
    case (Cons c cs)
    obtain r1 m1 where step: "add_cluster Y c (routes, cmap) = (r1, m1)" by (metis surj_pair)
    then have "hm_get m1 n = Some m \<Longrightarrow> hm_get cmap n = Some m \<or> names_service Y c n m"
      by (auto simp: add_cluster_names names_service_def hm_get_insert split: if_splits)
    then show ?case using Cons.IH [of r1 m1] Cons.prems step by auto
  qed simp
qed

text \<open>Pass 2 visits the virtual hosts.\<close>

lemma filter_pass:
  "set (filter_routes Y cmap flt) = (\<Union>vh \<in> set
      (if y_is_mapping Y (y_get Y (y_get Y flt ''typed_config'') ''route_config'')
       then y_items Y (y_get Y (y_get Y (y_get Y flt ''typed_config'') ''route_config'') ''virtual_hosts'')
       else if y_is_mapping Y (y_get Y flt ''route_config'')
       then y_items Y (y_get Y (y_get Y flt ''route_config'') ''virtual_hosts'') else []). set (vhost_routes Y cmap vh))"
  by (auto simp: filter_routes_def Let_def)

lemma listener_pass:
  "set (concat (map (listener_routes Y cmap) (y_items Y (y_get Y (y_get Y v ''static_resources'') ''listeners'')))) =
   (\<Union>vh \<in> set (virtual_hosts Y v). set (vhost_routes Y cmap vh))"
  unfolding virtual_hosts_def listener_routes_def set_concat set_map image_image filter_pass UN_UN_flatten
  by (simp only: UN_simps set_concat set_map image_image UN_UN_flatten UN_singleton)

lemma set_domain_route:
  "r \<in> set (domain_route Y m d) \<longleftrightarrow>
     y_str Y d = Some (ro_domain r) \<and> \<not> is_wildcard (ro_domain r) \<and> m = (ro_service_name r, ro_namespace r)"
  by (cases r; cases m) (auto simp: domain_route_def split: option.split)

lemma set_vhost_routes:
  "r \<in> set (vhost_routes Y cmap vh) \<longleftrightarrow>
     hm_get cmap (vhost_cluster Y vh) = Some (ro_service_name r, ro_namespace r) \<and> \<not> is_wildcard (ro_domain r) \<and>
     (\<exists>d \<in> set (y_items Y (y_get Y vh ''domains'')). y_str Y d = Some (ro_domain r))"
  by (cases "hm_get cmap (vhost_cluster Y vh)") (auto simp: vhost_routes_def vhost_cluster_def [symmetric] Let_def set_domain_route)

section \<open>Properties\<close>

text \<open>C38. The parser never invents a service. For a file that is valid YAML, every route it returns names the service and namespace in
  the upstream address of a named cluster of the file, and stands either under that address itself
  (which is not checked for a wildcard) or under a domain, not a wildcard, of a virtual host of the
  file whose first route goes to a cluster of that name. Every named cluster with such an address
  has its route, and an address \<open>service.namespace.svc.domain\<close> is read as that service and namespace.\<close>

theorem envoy_routes_sound:
  assumes "y_from_str Y yaml_str = Inr v"
  shows "(\<forall>r \<in> set (parse_envoy_routes Y yaml_str).
      \<exists>c \<in> set (y_items Y (y_get Y (y_get Y v ''static_resources'') ''clusters'')). \<exists>name.
        names_service Y c name (ro_service_name r, ro_namespace r) \<and>
        (ro_domain r = cluster_address Y c \<or>
         \<not> is_wildcard (ro_domain r) \<and> (\<exists>vh \<in> set (virtual_hosts Y v). vhost_cluster Y vh = name \<and>
           (\<exists>d \<in> set (y_items Y (y_get Y vh ''domains'')). y_str Y d = Some (ro_domain r))))) \<and>
    (\<forall>c \<in> set (y_items Y (y_get Y (y_get Y v ''static_resources'') ''clusters'')). \<forall>name svc ns.
      names_service Y c name (svc, ns) \<longrightarrow>
      \<lparr>ro_domain = cluster_address Y c, ro_service_name = svc, ro_namespace = ns\<rparr> \<in> set (parse_envoy_routes Y yaml_str)) \<and>
    (\<forall>svc ns domain. CHR ''.'' \<notin> set svc \<and> CHR ''.'' \<notin> set ns \<and> svc \<noteq> ''svc'' \<and> ns \<noteq> ''svc'' \<longrightarrow>
       svc_namespace_from_fqdn (svc @ ''.'' @ ns @ ''.svc.'' @ domain) = Some (svc, ns))"
proof -
  let ?cs = "y_items Y (y_get Y (y_get Y v ''static_resources'') ''clusters'')"
  obtain routes cmap where f: "fold (add_cluster Y) ?cs ([], []) = (routes, cmap)" by (metis surj_pair)
  have "parse_envoy_routes Y yaml_str = routes @
      concat (map (listener_routes Y cmap) (y_items Y (y_get Y (y_get Y v ''static_resources'') ''listeners'')))"
    using f assms by (simp add: parse_envoy_routes_def Let_def)
  then have p: "set (parse_envoy_routes Y yaml_str) = set routes \<union> (\<Union>vh \<in> set (virtual_hosts Y v). set (vhost_routes Y cmap vh))"
    by (simp only: set_append listener_pass)
  have r: "set routes = {\<lparr>ro_domain = cluster_address Y c, ro_service_name = fst m, ro_namespace = snd m\<rparr> |
      c name m. c \<in> set ?cs \<and> names_service Y c name m}"
    using add_cluster_pass(1) [OF f] by simp
  have m: "\<exists>c \<in> set ?cs. names_service Y c n m" if "hm_get cmap n = Some m" for n m
    using add_cluster_pass(2) [OF f that] by simp
  have sound: "\<exists>c \<in> set ?cs. \<exists>name. names_service Y c name (ro_service_name r, ro_namespace r) \<and>
        (ro_domain r = cluster_address Y c \<or>
         \<not> is_wildcard (ro_domain r) \<and> (\<exists>vh \<in> set (virtual_hosts Y v). vhost_cluster Y vh = name \<and>
           (\<exists>d \<in> set (y_items Y (y_get Y vh ''domains'')). y_str Y d = Some (ro_domain r))))"
    if mem: "r \<in> set (parse_envoy_routes Y yaml_str)" for r
  proof (cases "r \<in> set routes")
    case True
    then obtain c name m where c: "c \<in> set ?cs" "names_service Y c name m"
      "r = \<lparr>ro_domain = cluster_address Y c, ro_service_name = fst m, ro_namespace = snd m\<rparr>"
      unfolding r by blast
    then show ?thesis by (intro bexI [OF _ c(1)] exI [of _ name]) simp
  next
    case False
    then obtain vh where vh: "vh \<in> set (virtual_hosts Y v)" "r \<in> set (vhost_routes Y cmap vh)" using mem by (auto simp: p)
    then obtain c where "c \<in> set ?cs" "names_service Y c (vhost_cluster Y vh) (ro_service_name r, ro_namespace r)"
      using m [of "vhost_cluster Y vh"] unfolding set_vhost_routes by blast
    then show ?thesis using vh by (auto simp: set_vhost_routes)
  qed
  have complete: "\<lparr>ro_domain = cluster_address Y c, ro_service_name = svc, ro_namespace = ns\<rparr> \<in> set (parse_envoy_routes Y yaml_str)"
    if "c \<in> set ?cs" "names_service Y c name (svc, ns)" for c name svc ns
  proof -
    have "\<lparr>ro_domain = cluster_address Y c, ro_service_name = svc, ro_namespace = ns\<rparr> \<in> set routes"
      unfolding r using that by force
    then show ?thesis by (simp add: p)
  qed
  show ?thesis using sound complete fqdn_parts by (intro conjI ballI allI impI) blast+
qed

theorem envoy_routes_sound_witness:
  "\<lparr>ro_domain = ''web.prod.svc.cluster.local'', ro_service_name = ''web'', ro_namespace = ''prod''\<rparr> \<in>
     set (parse_envoy_routes (yaml_values sample_envoy) [])"
proof -
  let ?Y = "yaml_values sample_envoy"
  have Y: "y_from_str ?Y [] = Inr sample_envoy" by (simp add: yaml_values_def)
  obtain c where c: "c \<in> set (y_items ?Y (y_get ?Y (y_get ?Y sample_envoy ''static_resources'') ''clusters''))"
    and a: "cluster_address ?Y c = ''web.prod.svc.cluster.local''" "y_str ?Y (y_get ?Y c ''name'') = Some ''web''"
    by (simp add: yaml_values_def sample_envoy_def y_items_def cluster_address_def y_text_def)
  have "svc_namespace_from_fqdn ''web.prod.svc.cluster.local'' = Some (''web'', ''prod'')" by code_simp
  then have "names_service ?Y c ''web'' (''web'', ''prod'')" by (simp add: names_service_def a)
  then show ?thesis using envoy_routes_sound [OF Y] c a(1) by metis
qed

end
