(* ===== verification/Agent_Wiring.thy ===== *)
theory Agent_Wiring
  imports Envoy_Parser
begin

text \<open>
  How the cluster agent is put together: the informers and their construction
  (\<^verbatim>\<open>cluster-agent/src/kubernetes/informer.rs\<close>, \<^verbatim>\<open>informer_factory.rs\<close>, \<^verbatim>\<open>node_informer.rs\<close>,
  \<^verbatim>\<open>controller.rs\<close>, \<^verbatim>\<open>model.rs\<close>) and the agent as a whole (\<open>run\<close> of
  \<^verbatim>\<open>cluster-agent/src/server/mod.rs\<close>): thirteen watch tasks and a resync task interleave over
  one registry, until a signal or an essential task ends the run. The items a watcher
  delivers and the lists the API server returns are not determined: they are chosen by
  the steps of the run.
\<close>

section \<open>Informers\<close>

datatype informer_type =
    InfService | InfConfigMap | InfPod | InfDeployment | InfReplicaSet | InfIngress | InfEvent | InfHpa | InfNode
  | InfRollout | InfExternalSecret | InfHttpProxy | InfVirtualService

text \<open>\<open>format!("{:?}", informer_type)\<close>\<close>

fun informer_type_debug :: "informer_type \<Rightarrow> string" where
  "informer_type_debug InfService = ''Service''"
| "informer_type_debug InfConfigMap = ''ConfigMap''"
| "informer_type_debug InfPod = ''Pod''"
| "informer_type_debug InfDeployment = ''Deployment''"
| "informer_type_debug InfReplicaSet = ''ReplicaSet''"
| "informer_type_debug InfIngress = ''Ingress''"
| "informer_type_debug InfEvent = ''Event''"
| "informer_type_debug InfHpa = ''Hpa''"
| "informer_type_debug InfNode = ''Node''"
| "informer_type_debug InfRollout = ''Rollout''"
| "informer_type_debug InfExternalSecret = ''ExternalSecret''"
| "informer_type_debug InfHttpProxy = ''HttpProxy''"
| "informer_type_debug InfVirtualService = ''VirtualService''"

text \<open>What the watchers of the different resources deliver; resources that are handled through their
  metadata carry their type.\<close>

datatype watch_item =
    ServiceItem "service_obj watch_event"
  | ConfigMapItem "config_map_obj watch_event"
  | PodItem "pod_obj watch_event"
  | EventItem "event_obj watch_event"
  | MetaItem informer_type "object_meta watch_event"

fun as_service :: "watch_item \<Rightarrow> service_obj watch_event option" where
  "as_service (ServiceItem ev) = Some ev" | "as_service _ = None"

fun as_configmap :: "watch_item \<Rightarrow> config_map_obj watch_event option" where
  "as_configmap (ConfigMapItem ev) = Some ev" | "as_configmap _ = None"

fun as_pod :: "watch_item \<Rightarrow> pod_obj watch_event option" where
  "as_pod (PodItem ev) = Some ev" | "as_pod _ = None"

fun as_event :: "watch_item \<Rightarrow> event_obj watch_event option" where
  "as_event (EventItem ev) = Some ev" | "as_event _ = None"

fun as_meta :: "informer_type \<Rightarrow> watch_item \<Rightarrow> object_meta watch_event option" where
  "as_meta ty (MetaItem ty' ev) = (if ty' = ty then Some ev else None)" | "as_meta ty _ = None"

record cluster_agent_config =
  ac_core_host :: string
  ac_core_grpc_port :: u16
  ac_namespace :: string

text \<open>\<open>init_config\<close>: the environment, the file system and the YAML reader are parameters.\<close>

definition get_config_path :: "(string \<Rightarrow> string option) \<Rightarrow> string" where
  "get_config_path env = (case env ''CONFIG_PATH'' of None \<Rightarrow> ''/app/config.yaml'' | Some path \<Rightarrow> path)"

definition agent_init_config :: "(string \<Rightarrow> string option) \<Rightarrow> (string \<Rightarrow> string option)
    \<Rightarrow> (string \<Rightarrow> cluster_agent_config option) \<Rightarrow> cluster_agent_config option
    \<Rightarrow> (cluster_agent_config \<times> cluster_agent_config option) option" where
  "agent_init_config env read_to_string from_yaml cell =
     get_or_init cell (Option.bind (read_to_string (get_config_path env)) from_yaml)"

text \<open>The endpoint of the client of Core.\<close>

definition agent_endpoint :: "cluster_agent_config \<Rightarrow> string" where
  "agent_endpoint cfg = ''http://'' @ ac_core_host cfg @ '':'' @ nat_str (unat (ac_core_grpc_port cfg))"

text \<open>\<open>Arc<dyn Informer>\<close>: what the informer watches, the namespace it watches (\<open>None\<close>: all), its name
  in error messages, and what it does with an item of its watcher.\<close>

record informer =
  inf_type :: informer_type
  inf_scope :: "string option"
  inf_name :: string
  inf_handle :: "watch_item \<Rightarrow> agent_state \<Rightarrow> agent_state"

text \<open>The Rust informer is generic in the resource type, and the type checker guarantees that its handler
  gets objects of that type. Here the items of all watchers have one type, and the selector \<open>sel\<close>
  stands for the static type: an item of another resource, which the Rust program cannot deliver to
  this informer, is ignored.\<close>

definition handle_with :: "(watch_item \<Rightarrow> 'k watch_event option) \<Rightarrow> 'k event_handler \<Rightarrow> watch_item
    \<Rightarrow> agent_state \<Rightarrow> agent_state" where
  "handle_with sel H item a = (case sel item of None \<Rightarrow> a | Some ev \<Rightarrow> dispatch H ev a)"

definition informer_generic :: "cluster_agent_config \<Rightarrow> informer_type \<Rightarrow> (watch_item \<Rightarrow> 'k watch_event option)
    \<Rightarrow> 'k event_handler \<Rightarrow> informer" where
  "informer_generic cfg ty sel H =
     \<lparr>inf_type = ty, inf_scope = (if ac_namespace cfg = [] then None else Some (ac_namespace cfg)),
      inf_name = informer_type_debug ty, inf_handle = handle_with sel H\<rparr>"

definition node_informer :: "object_meta event_handler \<Rightarrow> informer" where
  "node_informer H = \<lparr>inf_type = InfNode, inf_scope = None, inf_name = ''Node'', inf_handle = handle_with (as_meta InfNode) H\<rparr>"

text \<open>\<open>Informer::start\<close>: the items until the stream ends, an error of the watcher ends the loop.\<close>

fun start :: "informer \<Rightarrow> (watch_item, string) rust_result list \<Rightarrow> agent_state
    \<Rightarrow> (unit, string) rust_result \<times> agent_state" where
  "start i [] a = (Inr (), a)"
| "start i (Inr item # items) a = start i items (inf_handle i item a)"
| "start i (Inl e # items) a = (Inl (inf_name i @ '' watcher error: '' @ e), a)"

section \<open>Custom resources\<close>

text \<open>The four optional resources, watched through their metadata only: group, version and kind.\<close>

record custom_resource =
  cr_group :: string
  cr_version :: string
  cr_kind :: string
  cr_namespaced :: bool

definition rollout_spec :: custom_resource where
  "rollout_spec = \<lparr>cr_group = ''argoproj.io'', cr_version = ''v1alpha1'', cr_kind = ''Rollout'', cr_namespaced = True\<rparr>"

definition external_secret_spec :: custom_resource where
  "external_secret_spec =
     \<lparr>cr_group = ''external-secrets.io'', cr_version = ''v1beta1'', cr_kind = ''ExternalSecret'', cr_namespaced = True\<rparr>"

definition http_proxy_spec :: custom_resource where
  "http_proxy_spec = \<lparr>cr_group = ''projectcontour.io'', cr_version = ''v1'', cr_kind = ''HTTPProxy'', cr_namespaced = True\<rparr>"

definition virtual_service_spec :: custom_resource where
  "virtual_service_spec =
     \<lparr>cr_group = ''networking.istio.io'', cr_version = ''v1'', cr_kind = ''VirtualService'', cr_namespaced = True\<rparr>"

section \<open>The factory\<close>

definition create_configmap_informer :: "'y yaml_ops \<Rightarrow> cluster_agent_config \<Rightarrow> informer" where
  "create_configmap_informer Y cfg = informer_generic cfg InfConfigMap as_configmap (configmap_handler (parse_envoy_routes Y))"

definition create_service_informer :: "cluster_agent_config \<Rightarrow> informer" where
  "create_service_informer cfg = informer_generic cfg InfService as_service service_handler"

definition create_pod_informer :: "cluster_agent_config \<Rightarrow> informer" where
  "create_pod_informer cfg = informer_generic cfg InfPod as_pod pod_handler"

definition create_deployment_informer :: "cluster_agent_config \<Rightarrow> informer" where
  "create_deployment_informer cfg = informer_generic cfg InfDeployment (as_meta InfDeployment) (generic_handler ''Deployment'')"

definition create_replicaset_informer :: "cluster_agent_config \<Rightarrow> informer" where
  "create_replicaset_informer cfg = informer_generic cfg InfReplicaSet (as_meta InfReplicaSet) (generic_handler ''ReplicaSet'')"

definition create_ingress_informer :: "cluster_agent_config \<Rightarrow> informer" where
  "create_ingress_informer cfg = informer_generic cfg InfIngress (as_meta InfIngress) (generic_handler ''Ingress'')"

definition create_event_informer :: "cluster_agent_config \<Rightarrow> informer" where
  "create_event_informer cfg = informer_generic cfg InfEvent as_event k8s_event_handler"

definition create_hpa_informer :: "cluster_agent_config \<Rightarrow> informer" where
  "create_hpa_informer cfg = informer_generic cfg InfHpa (as_meta InfHpa) (generic_handler ''HPA'')"

definition create_node_informer :: informer where
  "create_node_informer = node_informer (generic_handler ''Node'')"

definition create_rollout_informer :: "cluster_agent_config \<Rightarrow> informer" where
  "create_rollout_informer cfg = informer_generic cfg InfRollout (as_meta InfRollout) (generic_handler ''Rollout'')"

definition create_external_secret_informer :: "cluster_agent_config \<Rightarrow> informer" where
  "create_external_secret_informer cfg =
     informer_generic cfg InfExternalSecret (as_meta InfExternalSecret) (generic_handler ''ExternalSecret'')"

definition create_http_proxy_informer :: "cluster_agent_config \<Rightarrow> informer" where
  "create_http_proxy_informer cfg = informer_generic cfg InfHttpProxy (as_meta InfHttpProxy) (generic_handler ''HTTPProxy'')"

definition create_virtual_service_informer :: "cluster_agent_config \<Rightarrow> informer" where
  "create_virtual_service_informer cfg =
     informer_generic cfg InfVirtualService (as_meta InfVirtualService) (generic_handler ''VirtualService'')"

record informer_model =
  im_configmap :: informer
  im_service :: informer
  im_pod :: informer
  im_deployment :: informer
  im_replicaset :: informer
  im_ingress :: informer
  im_event :: informer
  im_hpa :: informer
  im_node :: informer
  im_rollout :: informer
  im_external_secret :: informer
  im_http_proxy :: informer
  im_virtual_service :: informer

definition create_informers :: "'y yaml_ops \<Rightarrow> cluster_agent_config \<Rightarrow> informer_model" where
  "create_informers Y cfg =
     \<lparr>im_configmap = create_configmap_informer Y cfg,
      im_service = create_service_informer cfg,
      im_pod = create_pod_informer cfg,
      im_deployment = create_deployment_informer cfg,
      im_replicaset = create_replicaset_informer cfg,
      im_ingress = create_ingress_informer cfg,
      im_event = create_event_informer cfg,
      im_hpa = create_hpa_informer cfg,
      im_node = create_node_informer,
      im_rollout = create_rollout_informer cfg,
      im_external_secret = create_external_secret_informer cfg,
      im_http_proxy = create_http_proxy_informer cfg,
      im_virtual_service = create_virtual_service_informer cfg\<rparr>"

section \<open>The run of the agent\<close>

text \<open>The informers in the order \<open>run\<close> spawns their tasks, and those whose end ends the run.\<close>

definition informers :: "informer_model \<Rightarrow> informer list" where
  "informers M = [im_configmap M, im_service M, im_pod M, im_deployment M, im_replicaset M, im_ingress M, im_event M,
     im_hpa M, im_node M, im_rollout M, im_external_secret M, im_http_proxy M, im_virtual_service M]"

definition essential :: "informer_type list" where
  "essential = [InfConfigMap, InfService, InfPod, InfDeployment, InfReplicaSet, InfIngress, InfEvent, InfHpa, InfNode]"

text \<open>Both synchronisations list objects first and send nothing if that fails; failures are logged.\<close>

definition sync_pod_map :: "(service_obj list, string) rust_result \<Rightarrow> (pod_obj list, string) rust_result
    \<Rightarrow> agent_state \<Rightarrow> agent_state" where
  "sync_pod_map svc_list pod_list a =
     (case svc_list of
        Inl e \<Rightarrow> a
      | Inr services \<Rightarrow>
          (case pod_list of
             Inl e \<Rightarrow> a
           | Inr pods \<Rightarrow> spawn_send (send_initial_pod_service_map services pods) a))"

definition sync_envoy_routes :: "'y yaml_ops \<Rightarrow> (config_map_obj list, string) rust_result \<Rightarrow> agent_state \<Rightarrow> agent_state" where
  "sync_envoy_routes Y cm_list a =
     (case cm_list of
        Inl e \<Rightarrow> a
      | Inr cms \<Rightarrow>
          (case send_envoy_routes_from_configmaps (parse_envoy_routes Y) cms of
             None \<Rightarrow> a
           | Some r \<Rightarrow> spawn_send r a))"

record api_lists =
  al_services :: "(service_obj list, string) rust_result"
  al_pods :: "(pod_obj list, string) rust_result"
  al_configmaps :: "(config_map_obj list, string) rust_result"

text \<open>One turn of the resync task; the start of \<open>run\<close> sends the same two requests.\<close>

definition resync :: "'y yaml_ops \<Rightarrow> api_lists \<Rightarrow> agent_state \<Rightarrow> agent_state" where
  "resync Y l a = sync_envoy_routes Y (al_configmaps l) (sync_pod_map (al_services l) (al_pods l) a)"

record agent_run =
  ru_agent :: agent_state
  ru_tasks :: "informer_type list"
  ru_returned :: bool

definition start_run :: "'y yaml_ops \<Rightarrow> cluster_agent_config \<Rightarrow> api_lists \<Rightarrow> agent_run" where
  "start_run Y cfg l =
     \<lparr>ru_agent = resync Y l empty_agent, ru_tasks = map inf_type (informers (create_informers Y cfg)), ru_returned = False\<rparr>"

datatype run_event =
  Watched informer_type watch_item | TaskEnded informer_type | Resynced | CtrlC | SelectTask informer_type

text \<open>A task ends when its stream ends or its watcher fails; \<open>select!\<close> waits for a signal and for the
  essential tasks. Returning ends the process and with it all tasks.\<close>

inductive agent_step :: "'y yaml_ops \<Rightarrow> cluster_agent_config \<Rightarrow> run_event \<Rightarrow> agent_run \<Rightarrow> agent_run \<Rightarrow> bool" for Y cfg where
  watched: "\<not> ru_returned r \<Longrightarrow> i \<in> set (informers (create_informers Y cfg)) \<Longrightarrow> inf_type i \<in> set (ru_tasks r) \<Longrightarrow>
    agent_step Y cfg (Watched (inf_type i) item) r (r\<lparr>ru_agent := inf_handle i item (ru_agent r)\<rparr>)"
| task_ended: "\<not> ru_returned r \<Longrightarrow> ty \<in> set (ru_tasks r) \<Longrightarrow>
    agent_step Y cfg (TaskEnded ty) r (r\<lparr>ru_tasks := removeAll ty (ru_tasks r)\<rparr>)"
| resynced: "\<not> ru_returned r \<Longrightarrow> agent_step Y cfg Resynced r (r\<lparr>ru_agent := resync Y l (ru_agent r)\<rparr>)"
| ctrl_c: "\<not> ru_returned r \<Longrightarrow> agent_step Y cfg CtrlC r (r\<lparr>ru_returned := True\<rparr>)"
| select_task: "\<not> ru_returned r \<Longrightarrow> ty \<in> set essential \<Longrightarrow> ty \<notin> set (ru_tasks r) \<Longrightarrow>
    agent_step Y cfg (SelectTask ty) r (r\<lparr>ru_returned := True\<rparr>)"

inductive_cases agent_stepE: "agent_step Y cfg e r r'"

inductive agent_trace :: "'y yaml_ops \<Rightarrow> cluster_agent_config \<Rightarrow> api_lists \<Rightarrow> run_event list \<Rightarrow> agent_run \<Rightarrow> bool" for Y cfg l where
  begun: "agent_trace Y cfg l [] (start_run Y cfg l)"
| stepped: "agent_trace Y cfg l es r \<Longrightarrow> agent_step Y cfg e r r' \<Longrightarrow> agent_trace Y cfg l (es @ [e]) r'"

section \<open>What the informers do\<close>

fun item_type :: "watch_item \<Rightarrow> informer_type" where
  "item_type (ServiceItem _) = InfService"
| "item_type (ConfigMapItem _) = InfConfigMap"
| "item_type (PodItem _) = InfPod"
| "item_type (EventItem _) = InfEvent"
| "item_type (MetaItem ty _) = ty"

text \<open>The label of a resource type in the table of resource events, and the requests a watcher of a
  type may send.\<close>

definition resource_label :: "informer_type \<Rightarrow> string" where
  "resource_label ty = (if ty = InfHpa then ''HPA'' else if ty = InfHttpProxy then ''HTTPProxy'' else informer_type_debug ty)"

fun request_of_type :: "informer_type \<Rightarrow> rpc \<Rightarrow> bool" where
  "request_of_type InfService (SendServiceEvent _) = True"
| "request_of_type InfPod (SendPodEvent _) = True"
| "request_of_type InfConfigMap (SendConfigMapEvent _) = True"
| "request_of_type InfConfigMap (SendEnvoyRoutes _) = True"
| "request_of_type ty (SendK8sResourceEvent q) =
     (ty \<notin> {InfService, InfPod, InfConfigMap} \<and> rr_resource_type q = resource_label ty)"
| "request_of_type _ _ = False"

text \<open>The label of a custom resource is its kind.\<close>

lemma custom_labels:
  "resource_label InfRollout = cr_kind rollout_spec" "resource_label InfExternalSecret = cr_kind external_secret_spec"
  "resource_label InfHttpProxy = cr_kind http_proxy_spec" "resource_label InfVirtualService = cr_kind virtual_service_spec"
  by (simp_all add: resource_label_def rollout_spec_def external_secret_spec_def http_proxy_spec_def virtual_service_spec_def)

text \<open>What a handler of a resource type promises.\<close>

definition sends_only :: "informer_type \<Rightarrow> (agent_state \<Rightarrow> agent_state) \<Rightarrow> bool" where
  "sends_only ty f \<longleftrightarrow> (\<forall>a. \<exists>out. outbox (f a) = outbox a @ out \<and> list_all (request_of_type ty) out \<and>
     (ty \<noteq> InfService \<longrightarrow> registry (f a) = registry a))"

lemma sends_only_id [simp]: "sends_only ty (\<lambda>a. a)"
  by (simp add: sends_only_def)

lemma sends_only_one: "request_of_type ty r \<Longrightarrow> sends_only ty (spawn_send r)"
  by (simp add: sends_only_def spawn_send_def)

lemmas handler_defs = service_handler_def service_on_apply_def service_on_delete_def pod_handler_def pod_on_apply_def
  pod_on_delete_def configmap_handler_def configmap_on_apply_def configmap_on_delete_def k8s_event_handler_def
  event_on_apply_def generic_handler_def generic_on_apply_def generic_on_delete_def

lemmas request_defs = agg_service_applied_def agg_service_deleted_def agg_pod_applied_def agg_pod_deleted_def
  agg_configmap_applied_def agg_configmap_deleted_def agg_envoy_routes_def agg_k8s_resource_event_def

lemma sends_service: "sends_only InfService (dispatch service_handler ev)"
  by (cases ev) (auto simp: sends_only_def handler_defs request_defs spawn_send_def Let_def split: option.split)

lemma sends_pod: "sends_only InfPod (dispatch pod_handler ev)"
  by (cases ev) (auto simp: sends_only_def handler_defs request_defs spawn_send_def Let_def split: option.split prod.split)

lemma sends_configmap: "sends_only InfConfigMap (dispatch (configmap_handler p) ev)"
  by (cases ev) (auto simp: sends_only_def handler_defs request_defs spawn_send_def Let_def split: option.split)

lemma sends_event: "sends_only InfEvent (dispatch k8s_event_handler ev)"
  by (cases ev) (auto simp: sends_only_def handler_defs request_defs spawn_send_def resource_label_def)

lemma sends_generic:
  assumes "ty \<notin> {InfService, InfPod, InfConfigMap}" and "rtype = resource_label ty"
  shows "sends_only ty (dispatch (generic_handler rtype) ev)"
  using assms by (cases ev; cases ty)
    (auto simp: sends_only_def handler_defs request_defs spawn_send_def split: prod.split)

lemma sends_handle_with: "(\<And>ev. sends_only ty (dispatch H ev)) \<Longrightarrow> sends_only ty (handle_with sel H item)"
  by (cases "sel item") (simp_all add: handle_with_def [abs_def])

text \<open>The laws of one informer: its name and scope, the items it reacts to, the requests it sends, and
  that it keeps the registry well formed.\<close>

definition informer_ok :: "cluster_agent_config \<Rightarrow> informer \<Rightarrow> bool" where
  "informer_ok cfg i \<longleftrightarrow>
     inf_name i = informer_type_debug (inf_type i) \<and>
     inf_scope i = (if inf_type i = InfNode \<or> ac_namespace cfg = [] then None else Some (ac_namespace cfg)) \<and>
     (\<forall>item. item_type item \<noteq> inf_type i \<longrightarrow> inf_handle i item = (\<lambda>a. a)) \<and>
     (\<forall>item. sends_only (inf_type i) (inf_handle i item)) \<and>
     (\<forall>item a. registry_ok (registry a) \<longrightarrow> registry_ok (registry (inf_handle i item a)))"

lemma keeps_handle_with:
  "(\<And>ev a. registry_ok (registry a) \<Longrightarrow> registry_ok (registry (dispatch H ev a))) \<Longrightarrow>
   registry_ok (registry a) \<Longrightarrow> registry_ok (registry (handle_with sel H item a))"
  by (simp add: handle_with_def split: option.split)

lemma informer_generic_ok:
  assumes "ty \<noteq> InfNode" and "\<And>item. item_type item \<noteq> ty \<Longrightarrow> sel item = None"
    and "\<And>ev. sends_only ty (dispatch H ev)"
    and "\<And>ev a. registry_ok (registry a) \<Longrightarrow> registry_ok (registry (dispatch H ev a))"
  shows "informer_ok cfg (informer_generic cfg ty sel H)"
  using assms keeps_handle_with [OF assms(4)]
  by (auto simp: informer_ok_def informer_generic_def sends_handle_with) (simp add: handle_with_def [abs_def])

lemma selectors:
  "item_type item \<noteq> InfService \<Longrightarrow> as_service item = None" "item_type item \<noteq> InfConfigMap \<Longrightarrow> as_configmap item = None"
  "item_type item \<noteq> InfPod \<Longrightarrow> as_pod item = None" "item_type item \<noteq> InfEvent \<Longrightarrow> as_event item = None"
  "item_type item \<noteq> ty \<Longrightarrow> as_meta ty item = None"
  by (cases item; simp)+

lemma generic_informer_ok:
  assumes "ty \<notin> {InfService, InfPod, InfConfigMap, InfNode}" and "rtype = resource_label ty"
  shows "informer_ok cfg (informer_generic cfg ty (as_meta ty) (generic_handler rtype))"
  using assms by (intro informer_generic_ok selectors sends_generic wh_generic.dispatch_keeps) auto

lemma node_informer_ok: "informer_ok cfg create_node_informer"
proof -
  have "sends_only InfNode (handle_with (as_meta InfNode) (generic_handler ''Node'') item)" for item
    by (intro sends_handle_with sends_generic) (simp_all add: resource_label_def)
  moreover have "handle_with (as_meta InfNode) (generic_handler ''Node'') item = (\<lambda>a. a)" if "item_type item \<noteq> InfNode" for item
    using selectors(5) [OF that] by (simp add: handle_with_def [abs_def])
  ultimately show ?thesis
    using keeps_handle_with [OF wh_generic.dispatch_keeps]
    by (simp add: informer_ok_def create_node_informer_def node_informer_def)
qed

lemmas create_defs = create_configmap_informer_def create_service_informer_def create_pod_informer_def
  create_deployment_informer_def create_replicaset_informer_def create_ingress_informer_def create_event_informer_def
  create_hpa_informer_def create_rollout_informer_def create_external_secret_informer_def
  create_http_proxy_informer_def create_virtual_service_informer_def

lemma created_informers_ok: "list_all (informer_ok cfg) (informers (create_informers Y cfg))"
  unfolding informers_def create_informers_def
  by (simp add: create_defs node_informer_ok generic_informer_ok resource_label_def informer_generic_ok selectors
      sends_configmap sends_service sends_pod sends_event wh_configmap.dispatch_keeps wh_service.dispatch_keeps
      wh_pod.dispatch_keeps wh_event.dispatch_keeps)

lemma created_types: "map inf_type (informers (create_informers Y cfg)) =
    [InfConfigMap, InfService, InfPod, InfDeployment, InfReplicaSet, InfIngress, InfEvent, InfHpa, InfNode,
     InfRollout, InfExternalSecret, InfHttpProxy, InfVirtualService]"
  by (simp add: informers_def create_informers_def create_defs informer_generic_def create_node_informer_def node_informer_def)

section \<open>Runs\<close>

lemma registry_sync [simp]: "registry (resync Y l a) = registry a"
  by (simp add: resync_def sync_pod_map_def sync_envoy_routes_def spawn_send_def split: sum.split option.split)

lemma outbox_sync: "\<exists>out. outbox (resync Y l a) = outbox a @ out"
  by (simp add: resync_def sync_pod_map_def sync_envoy_routes_def spawn_send_def split: sum.split option.split)

lemma created_informer_step:
  assumes "i \<in> set (informers (create_informers Y cfg))"
  shows "registry_ok (registry a) \<Longrightarrow> registry_ok (registry (inf_handle i item a))"
    and "\<exists>out. outbox (inf_handle i item a) = outbox a @ out"
proof -
  have ok: "informer_ok cfg i" using assms created_informers_ok by (auto simp: list_all_iff)
  then show "registry_ok (registry a) \<Longrightarrow> registry_ok (registry (inf_handle i item a))"
    by (simp add: informer_ok_def)
  show "\<exists>out. outbox (inf_handle i item a) = outbox a @ out"
    using ok unfolding informer_ok_def sends_only_def by blast
qed

lemma step_keeps: "agent_step Y cfg e r r' \<Longrightarrow> registry_ok (registry (ru_agent r)) \<Longrightarrow> registry_ok (registry (ru_agent r'))"
  by (induction rule: agent_step.induct) (auto intro: created_informer_step(1))

lemma step_grows: "agent_step Y cfg e r r' \<Longrightarrow> \<exists>out. outbox (ru_agent r') = outbox (ru_agent r) @ out"
  by (induction rule: agent_step.induct) (simp_all add: created_informer_step(2) outbox_sync)

lemma trace_keeps: "agent_trace Y cfg l es r \<Longrightarrow> registry_ok (registry (ru_agent r))"
  by (induction rule: agent_trace.induct) (simp_all add: start_run_def registry_ok_empty step_keeps)

lemma trace_tasks:
  "agent_trace Y cfg l es r \<Longrightarrow> ty \<in> set (ru_tasks r) \<longleftrightarrow> TaskEnded ty \<notin> set es"
proof (induction rule: agent_trace.induct)
  case begun
  have "ty \<in> set (map inf_type (informers (create_informers Y cfg)))" by (cases ty) (simp_all add: created_types)
  then show ?case by (simp add: start_run_def)
next
  case (stepped es r e r')
  from stepped(2,3) show ?case by (induction rule: agent_step.induct) auto
qed

lemma trace_returned:
  "agent_trace Y cfg l es r \<Longrightarrow> ru_returned r \<longleftrightarrow> CtrlC \<in> set es \<or> (\<exists>ty. SelectTask ty \<in> set es)"
proof (induction rule: agent_trace.induct)
  case (stepped es r e r')
  from stepped(2,3) show ?case by (induction rule: agent_step.induct) auto
qed (simp add: start_run_def)

lemma trace_select:
  "agent_trace Y cfg l es r \<Longrightarrow> SelectTask ty \<in> set es \<Longrightarrow> ty \<in> set essential \<and> TaskEnded ty \<in> set es"
proof (induction rule: agent_trace.induct)
  case (stepped es r e r')
  note tasks = trace_tasks [OF stepped(1)]
  from stepped(2) stepped(3,4) show ?case by (cases rule: agent_step.cases) (auto simp: tasks)
qed simp

text \<open>The run has returned only after a signal or after the end of the task of an informer of a built-in
  resource; the informers of custom resources are not essential.\<close>

definition custom_types :: "informer_type set" where
  "custom_types = {InfRollout, InfExternalSecret, InfHttpProxy, InfVirtualService}"

lemma set_essential: "ty \<in> set essential \<longleftrightarrow> ty \<notin> custom_types"
  by (cases ty) (simp_all add: essential_def custom_types_def)

lemma returned_cause:
  "agent_trace Y cfg l es r \<Longrightarrow> ru_returned r \<Longrightarrow> CtrlC \<in> set es \<or> (\<exists>ty. ty \<notin> custom_types \<and> TaskEnded ty \<in> set es)"
  using trace_returned trace_select unfolding set_essential by blast

section \<open>The registry over a run\<close>

text \<open>What a watched service does to the registry: an application with a name, a specification and a
  non-empty selector enters the service under its namespace and name, a deletion removes the entry,
  and any other event changes nothing.\<close>

definition service_entry :: "service_obj \<Rightarrow> (string \<times> registered_service option) option" where
  "service_entry svc =
     (case (om_name (sv_metadata svc), sv_spec svc) of
        (Some name, Some spec) \<Rightarrow>
          if map_or_default (ss_selector spec) = [] then None
          else Some (slash_key (str_or_default (om_namespace (sv_metadata svc))) name,
            Some \<lparr>rs_name = name, rs_service_type = (case ss_type spec of None \<Rightarrow> ''ClusterIP'' | Some t \<Rightarrow> t),
                  rs_selector = map_or_default (ss_selector spec)\<rparr>)
      | _ \<Rightarrow> None)"

fun service_effect :: "run_event \<Rightarrow> (string \<times> registered_service option) option" where
  "service_effect (Watched InfService (ServiceItem (WApply svc))) = service_entry svc"
| "service_effect (Watched InfService (ServiceItem (WInitApply svc))) = service_entry svc"
| "service_effect (Watched InfService (ServiceItem (WDelete svc))) =
     Some (slash_key (str_or_default (om_namespace (sv_metadata svc))) (str_or_default (om_name (sv_metadata svc))), None)"
| "service_effect _ = None"

text \<open>The service a history of the run leaves under a key: the last event that concerns the key entered it.\<close>

definition current_service :: "run_event list \<Rightarrow> string \<Rightarrow> registered_service \<Rightarrow> bool" where
  "current_service es k rs \<longleftrightarrow> (\<exists>es1 e es2. es = es1 @ e # es2 \<and> service_effect e = Some (k, Some rs) \<and>
     (\<forall>e' \<in> set es2. \<forall>x. service_effect e' \<noteq> Some (k, x)))"

lemma current_service_snoc:
  "current_service (es @ [e]) k rs \<longleftrightarrow>
     (case service_effect e of
        None \<Rightarrow> current_service es k rs
      | Some (k', x) \<Rightarrow> if k' = k then x = Some rs else current_service es k rs)"
proof -
  have "current_service (es @ [e]) k rs \<longleftrightarrow> service_effect e = Some (k, Some rs) \<or>
      (\<forall>x. service_effect e \<noteq> Some (k, x)) \<and> current_service es k rs"
  proof
    assume "current_service (es @ [e]) k rs"
    then obtain es1 e1 es2 where d: "es @ [e] = es1 @ e1 # es2" "service_effect e1 = Some (k, Some rs)"
      "\<forall>e' \<in> set es2. \<forall>x. service_effect e' \<noteq> Some (k, x)"
      unfolding current_service_def by blast
    show "service_effect e = Some (k, Some rs) \<or> (\<forall>x. service_effect e \<noteq> Some (k, x)) \<and> current_service es k rs"
    proof (cases es2 rule: rev_cases)
      case Nil
      then show ?thesis using d by simp
    next
      case (snoc ys y)
      then have "es = es1 @ e1 # ys" "e = y" using d(1) by simp_all
      then show ?thesis using d(2,3) snoc unfolding current_service_def by auto
    qed
  next
    assume "service_effect e = Some (k, Some rs) \<or> (\<forall>x. service_effect e \<noteq> Some (k, x)) \<and> current_service es k rs"
    then show "current_service (es @ [e]) k rs"
    proof
      assume "service_effect e = Some (k, Some rs)"
      then show ?thesis unfolding current_service_def by (intro exI [of _ es] exI [of _ e] exI [of _ "[]"]) simp
    next
      assume "(\<forall>x. service_effect e \<noteq> Some (k, x)) \<and> current_service es k rs"
      then show ?thesis unfolding current_service_def by (elim conjE exE) (rule exI, rule exI, rule_tac x = "es2 @ [e]" in exI, auto)
    qed
  qed
  then show ?thesis by (auto split: option.split)
qed

text \<open>One item of the service watcher.\<close>

lemma registry_service_item:
  assumes "registry_ok (registry a)"
  shows "hm_get (inner (registry (handle_with as_service service_handler item a))) k =
    (case service_effect (Watched InfService item) of
       None \<Rightarrow> hm_get (inner (registry a)) k
     | Some (k', x) \<Rightarrow> if k' = k then x else hm_get (inner (registry a)) k)"
proof -
  have ok: "\<not> poisoned (registry a)" "hm_ok (inner (registry a))" using assms by (simp_all add: registry_ok_def)
  have apply_eff: "hm_get (inner (registry (service_on_apply svc a))) k =
      (case service_entry svc of None \<Rightarrow> hm_get (inner (registry a)) k
       | Some (k', x) \<Rightarrow> if k' = k then x else hm_get (inner (registry a)) k)" for svc
    using ok by (auto simp: service_on_apply_def register_def service_entry_def Let_def hm_get_insert lock_set_def
        split: option.splits)
  have delete_eff: "hm_get (inner (registry (service_on_delete svc a))) k =
      (if slash_key (str_or_default (om_namespace (sv_metadata svc))) (str_or_default (om_name (sv_metadata svc))) = k
       then None else hm_get (inner (registry a)) k)" for svc
    using ok by (auto simp: service_on_delete_def deregister_def Let_def hm_get_remove lock_set_def)
  show ?thesis
  proof (cases item)
    case (ServiceItem ev)
    then show ?thesis by (cases ev) (simp_all add: handle_with_def service_handler_def apply_eff delete_eff)
  qed (simp_all add: handle_with_def)
qed

lemma created_of_type:
  assumes "i \<in> set (informers (create_informers Y cfg))"
  shows "inf_type i = InfService \<Longrightarrow> i = create_service_informer cfg"
    and "inf_type i = InfPod \<Longrightarrow> i = create_pod_informer cfg"
  using assms by (auto simp: informers_def create_informers_def create_defs informer_generic_def create_node_informer_def
      node_informer_def)

lemma step_registry:
  assumes "agent_step Y cfg e r r'" and "registry_ok (registry (ru_agent r))"
  shows "hm_get (inner (registry (ru_agent r'))) k =
    (case service_effect e of
       None \<Rightarrow> hm_get (inner (registry (ru_agent r))) k
     | Some (k', x) \<Rightarrow> if k' = k then x else hm_get (inner (registry (ru_agent r))) k)"
  using assms
proof (cases rule: agent_step.cases)
  case (watched i item)
  show ?thesis
  proof (cases "inf_type i = InfService")
    case True
    then have "inf_handle i = handle_with as_service service_handler"
      using created_of_type(1) [OF watched(4)] by (simp add: create_service_informer_def informer_generic_def)
    then show ?thesis using registry_service_item [OF assms(2)] watched(1,2) True by simp
  next
    case False
    have "informer_ok cfg i" using watched(4) created_informers_ok by (auto simp: list_all_iff)
    then have "registry (inf_handle i item (ru_agent r)) = registry (ru_agent r)"
      using False unfolding informer_ok_def sends_only_def by blast
    moreover have "service_effect e = None" using False watched(1) by (cases "inf_type i") simp_all
    ultimately show ?thesis using watched(2) by simp
  qed
qed simp_all

lemma trace_registry:
  "agent_trace Y cfg l es r \<Longrightarrow> hm_get (inner (registry (ru_agent r))) k = Some rs \<longleftrightarrow> current_service es k rs"
proof (induction rule: agent_trace.induct)
  case begun
  then show ?case by (simp add: start_run_def empty_agent_def current_service_def)
next
  case (stepped es r e r')
  note step_registry [OF stepped(2) trace_keeps [OF stepped(1)], of k]
  then show ?case using stepped(3) by (simp add: current_service_snoc split: option.split prod.split)
qed

lemma in_registry: "registry_ok reg \<Longrightarrow> rs \<in> snd ` set (inner reg) \<longleftrightarrow> (\<exists>k. hm_get (inner reg) k = Some rs)"
  by (force simp: registry_ok_def)

section \<open>Properties\<close>

text \<open>C14. The agent is wired type-correctly: every kind of resource has exactly one informer; it watches the
  configured namespace (nodes the whole cluster), reacts only to objects of its kind, and sends only
  requests of its kind, resource events under the label of the kind; only the service informer
  writes the registry.\<close>

theorem wiring_well_typed:
  "distinct (map inf_type (informers (create_informers Y cfg))) \<and>
   set (map inf_type (informers (create_informers Y cfg))) = UNIV \<and>
   (\<forall>i \<in> set (informers (create_informers Y cfg)).
      inf_scope i = (if inf_type i = InfNode \<or> ac_namespace cfg = [] then None else Some (ac_namespace cfg)) \<and>
      (\<forall>item a. (item_type item \<noteq> inf_type i \<longrightarrow> inf_handle i item a = a) \<and>
         (\<exists>out. outbox (inf_handle i item a) = outbox a @ out \<and> list_all (request_of_type (inf_type i)) out) \<and>
         (inf_type i \<noteq> InfService \<longrightarrow> registry (inf_handle i item a) = registry a)))"
proof (intro conjI ballI)
  show "distinct (map inf_type (informers (create_informers Y cfg)))" by (simp add: created_types)
  have "ty \<in> set (map inf_type (informers (create_informers Y cfg)))" for ty by (cases ty) (simp_all add: created_types)
  then show "set (map inf_type (informers (create_informers Y cfg))) = UNIV" by blast
next
  fix i assume "i \<in> set (informers (create_informers Y cfg))"
  then have ok: "informer_ok cfg i" using created_informers_ok by (auto simp: list_all_iff)
  then show "inf_scope i = (if inf_type i = InfNode \<or> ac_namespace cfg = [] then None else Some (ac_namespace cfg))"
    by (simp only: informer_ok_def)
  show "\<forall>item a. (item_type item \<noteq> inf_type i \<longrightarrow> inf_handle i item a = a) \<and>
         (\<exists>out. outbox (inf_handle i item a) = outbox a @ out \<and> list_all (request_of_type (inf_type i)) out) \<and>
         (inf_type i \<noteq> InfService \<longrightarrow> registry (inf_handle i item a) = registry a)"
    using ok unfolding informer_ok_def sends_only_def by metis
qed

definition sample_config :: cluster_agent_config where
  "sample_config = \<lparr>ac_core_host = ''core'', ac_core_grpc_port = 50051, ac_namespace = ''prod''\<rparr>"

theorem wiring_well_typed_witness:
  "im_hpa (create_informers (yaml_values sample_envoy) sample_config) \<in>
     set (informers (create_informers (yaml_values sample_envoy) sample_config)) \<and>
   inf_scope (im_hpa (create_informers (yaml_values sample_envoy) sample_config)) = Some ''prod''"
proof -
  let ?M = "create_informers (yaml_values sample_envoy) sample_config"
  have "im_hpa ?M \<in> set (informers ?M)" by (simp add: informers_def)
  moreover have "inf_type (im_hpa ?M) = InfHpa"
    by (simp add: create_informers_def create_hpa_informer_def informer_generic_def)
  ultimately show ?thesis
    using wiring_well_typed [of "yaml_values sample_envoy" sample_config] by (auto simp: sample_config_def)
qed

text \<open>C19. However the thirteen watch tasks, the resync task and the signal interleave, the registry of the
  agent is determined by the services watched so far: an entry stands under a key exactly if the
  last event concerning the key (an application with name, specification and non-empty selector, or a
  deletion) entered it. An application of a pod with an address is therefore announced to Core under
  a service whose entry is current at that moment and selects the pod's labels, and without a service
  exactly if no current entry does; the application name follows from the service, and the registry is not touched.
  (An update that empties the selector of a service concerns no key: the old entry stays current.)\<close>

theorem pods_announced_with_current_service:
  assumes "agent_trace Y cfg l es r"
  shows "(\<forall>k rs. hm_get (inner (registry (ru_agent r))) k = Some rs \<longleftrightarrow> current_service es k rs) \<and>
    (\<forall>pod addr ns r'. pod_ip_and_namespace pod = Some (addr, ns) \<and>
        agent_step Y cfg (Watched InfPod (PodItem (WApply pod))) r r' \<longrightarrow>
      (\<exists>svc ty. outbox (ru_agent r') = outbox (ru_agent r)
          @ [agg_pod_applied addr ns (resolve_application_name pod svc) svc ty] \<and>
        registry (ru_agent r') = registry (ru_agent r) \<and>
        (case om_labels (po_metadata pod) of
           None \<Rightarrow> svc = [] \<and> ty = []
         | Some labels \<Rightarrow>
             if \<exists>k rs. current_service es k rs \<and> selector_matches (rs_selector rs) labels
             then \<exists>k rs. current_service es k rs \<and> selector_matches (rs_selector rs) labels \<and> rs_selector rs \<noteq> [] \<and>
                svc = rs_name rs \<and> ty = rs_service_type rs
             else svc = [] \<and> ty = [])))"
proof (intro conjI allI impI)
  fix k rs
  show "hm_get (inner (registry (ru_agent r))) k = Some rs \<longleftrightarrow> current_service es k rs" by (rule trace_registry [OF assms])
next
  let ?reg = "registry (ru_agent r)"
  have ok: "registry_ok ?reg" by (rule trace_keeps [OF assms])
  have cur: "rs \<in> snd ` set (inner ?reg) \<longleftrightarrow> (\<exists>k. current_service es k rs)" for rs
    unfolding in_registry [OF ok] trace_registry [OF assms] ..
  fix pod addr ns r'
  assume "pod_ip_and_namespace pod = Some (addr, ns) \<and> agent_step Y cfg (Watched InfPod (PodItem (WApply pod))) r r'"
  then have addr: "pod_ip_and_namespace pod = Some (addr, ns)"
    and st: "agent_step Y cfg (Watched InfPod (PodItem (WApply pod))) r r'" by simp_all
  obtain svc ty where p: "(case find_service_for_pod ?reg pod of None \<Rightarrow> ([], []) | Some p \<Rightarrow> p) = (svc, ty)" by (metis surj_pair)
  from st have "ru_agent r' = pod_on_apply pod (ru_agent r)"
  proof (cases rule: agent_step.cases)
    case (watched i)
    then show ?thesis using created_of_type(2) [of i Y cfg]
      by (simp add: create_pod_informer_def informer_generic_def handle_with_def pod_handler_def)
  qed
  then have out: "ru_agent r' = spawn_send (agg_pod_applied addr ns (resolve_application_name pod svc) svc ty) (ru_agent r)"
    using addr p by (simp add: pod_on_apply_def)
  have "case om_labels (po_metadata pod) of
           None \<Rightarrow> svc = [] \<and> ty = []
         | Some labels \<Rightarrow>
             if \<exists>k rs. current_service es k rs \<and> selector_matches (rs_selector rs) labels
             then \<exists>k rs. current_service es k rs \<and> selector_matches (rs_selector rs) labels \<and> rs_selector rs \<noteq> [] \<and>
                svc = rs_name rs \<and> ty = rs_service_type rs
             else svc = [] \<and> ty = []"
  proof (cases "find_service_for_pod ?reg pod")
    case None
    then have "\<forall>rs \<in> snd ` set (inner ?reg). \<not> selector_matches (rs_selector rs) labels"
      if "om_labels (po_metadata pod) = Some labels" for labels
      using find_service_iff [OF ok, of pod] that by simp
    then have "\<not> (\<exists>k rs. current_service es k rs \<and> selector_matches (rs_selector rs) labels)"
      if "om_labels (po_metadata pod) = Some labels" for labels
      using that cur by blast
    then show ?thesis using None p by (auto split: option.splits)
  next
    case (Some q)
    then have "find_service_for_pod ?reg pod = Some (svc, ty)" using p by simp
    from find_service_sound [OF ok this] obtain labels rs k where l: "om_labels (po_metadata pod) = Some labels"
      and rs: "current_service es k rs" "selector_matches (rs_selector rs) labels" "rs_selector rs \<noteq> []"
        "svc = rs_name rs" "ty = rs_service_type rs"
      unfolding cur by blast
    from rs(1,2) have "\<exists>k rs. current_service es k rs \<and> selector_matches (rs_selector rs) labels" by blast
    then show ?thesis using l rs by simp blast
  qed
  then show "\<exists>svc ty. outbox (ru_agent r') = outbox (ru_agent r)
          @ [agg_pod_applied addr ns (resolve_application_name pod svc) svc ty] \<and>
        registry (ru_agent r') = registry (ru_agent r) \<and>
        (case om_labels (po_metadata pod) of
           None \<Rightarrow> svc = [] \<and> ty = []
         | Some labels \<Rightarrow>
             if \<exists>k rs. current_service es k rs \<and> selector_matches (rs_selector rs) labels
             then \<exists>k rs. current_service es k rs \<and> selector_matches (rs_selector rs) labels \<and> rs_selector rs \<noteq> [] \<and>
                svc = rs_name rs \<and> ty = rs_service_type rs
             else svc = [] \<and> ty = [])"
    using out by (intro exI [of _ svc] exI [of _ ty]) simp
qed

theorem pods_announced_with_current_service_witness:
  "\<exists>r. agent_trace (yaml_values sample_envoy) sample_config \<lparr>al_services = Inl ''down'', al_pods = Inr [], al_configmaps = Inr []\<rparr>
      [Watched InfService (ServiceItem (WApply (sample_service ''web'' ''prod'' [(''app'', ''web'')])))] r \<and>
    hm_get (inner (registry (ru_agent r))) ''prod/web'' =
      Some \<lparr>rs_name = ''web'', rs_service_type = ''ClusterIP'', rs_selector = [(''app'', ''web'')]\<rparr>"
proof -
  let ?Y = "yaml_values sample_envoy" and ?l = "\<lparr>al_services = Inl ''down'', al_pods = Inr [], al_configmaps = Inr []\<rparr>"
  let ?svc = "sample_service ''web'' ''prod'' [(''app'', ''web'')]"
  let ?e = "Watched InfService (ServiceItem (WApply ?svc))"
  let ?r = "start_run ?Y sample_config ?l"
  let ?i = "create_service_informer sample_config"
  let ?r1 = "?r\<lparr>ru_agent := inf_handle ?i (ServiceItem (WApply ?svc)) (ru_agent ?r)\<rparr>"
  have "?i \<in> set (informers (create_informers ?Y sample_config))" by (simp add: informers_def create_informers_def)
  moreover have "inf_type ?i = InfService" by (simp add: create_service_informer_def informer_generic_def)
  ultimately have "agent_step ?Y sample_config ?e ?r ?r1"
    using watched [of ?r ?i ?Y sample_config] by (simp add: start_run_def created_types)
  then have t: "agent_trace ?Y sample_config ?l [?e] ?r1"
    using agent_trace.stepped [OF agent_trace.begun] by force
  have "current_service [?e] ''prod/web'' \<lparr>rs_name = ''web'', rs_service_type = ''ClusterIP'', rs_selector = [(''app'', ''web'')]\<rparr>"
    unfolding current_service_def
    by (intro exI [of _ "[]"] exI [of _ ?e] exI [of _ "[]"])
      (simp add: service_entry_def sample_service_def map_or_default_def str_or_default_def slash_key_def)
  then show ?thesis
    using t pods_announced_with_current_service [OF t] by (intro exI [of _ ?r1]) simp
qed

end
