(* ===== verification/Entry_Points.thy ===== *)
theory Entry_Points
  imports Core_Run Mcp_Server Loader_Wiring Agent_Wiring
begin

text \<open>
  How the programs are put together: the servers of Core and what they share (\<^verbatim>\<open>core/src/server/factory.rs\<close>,
  \<^verbatim>\<open>http.rs\<close>, \<open>GrpcServer::new\<close>, \<open>run\<close> of \<^verbatim>\<open>core/src/lib.rs\<close>), and the four \<open>main\<close> functions. An \<open>Arc\<close> is a
  handle; a clone of an \<open>Arc\<close> is the same handle and \<open>Arc::new\<close> takes the next one. That the handles of the
  servers coincide is what allows the state of Core to be one record in the other theories.
\<close>

section \<open>What the servers of Core share\<close>

type_synonym handle = nat

record app_state =
  as_topology :: handle
  as_db :: handle

record http_server =
  hs_app_port :: u16
  hs_app_host :: string
  hs_state :: app_state

record k8s_aggregator =
  ka_pod_cache :: handle
  ka_service_cache :: handle
  ka_topology :: handle
  ka_db :: handle

record ebpf_aggregator =
  ea_config :: qubit_config
  ea_db :: handle
  ea_topology :: handle
  ea_pod_cache :: handle
  ea_seen_edges :: handle
  ea_envoy_cache :: handle

record grpc_server =
  gs_config :: qubit_config
  gs_ebpf_aggregator :: ebpf_aggregator
  gs_k8s_aggregator :: k8s_aggregator
  gs_envoy_cache :: handle

record query_server =
  qs_topology :: handle

record server_factory =
  sf_config :: qubit_config
  sf_db :: handle
  sf_topology :: handle
  sf_cache :: handle

definition http_server_new :: "qubit_config \<Rightarrow> handle \<Rightarrow> handle \<Rightarrow> http_server" where
  "http_server_new config db topology =
     \<lparr>hs_app_port = ap_http_port (qc_app config), hs_app_host = ''0.0.0.0'',
      hs_state = \<lparr>as_topology = topology, as_db = db\<rparr>\<rparr>"

definition k8s_aggregator_new :: "handle \<Rightarrow> handle \<Rightarrow> handle \<Rightarrow> k8s_aggregator \<times> handle" where
  "k8s_aggregator_new topology db fresh =
     (\<lparr>ka_pod_cache = fresh, ka_service_cache = fresh + 1, ka_topology = topology, ka_db = db\<rparr>, fresh + 2)"

definition ebpf_aggregator_new :: "qubit_config \<Rightarrow> handle \<Rightarrow> handle \<Rightarrow> handle \<Rightarrow> handle \<Rightarrow> handle \<Rightarrow> ebpf_aggregator \<times> handle" where
  "ebpf_aggregator_new config db topology pods_arc envoy_arc fresh =
     (\<lparr>ea_config = config, ea_db = db, ea_topology = topology, ea_pod_cache = pods_arc,
       ea_seen_edges = fresh, ea_envoy_cache = envoy_arc\<rparr>, fresh + 1)"

definition grpc_server_new :: "qubit_config \<Rightarrow> handle \<Rightarrow> handle \<Rightarrow> handle \<Rightarrow> handle \<Rightarrow> grpc_server \<times> handle" where
  "grpc_server_new config db topology cache fresh =
     (let (k8s, fresh1) = k8s_aggregator_new topology db fresh;
          pods_arc = ka_pod_cache k8s;
          (ebpf, fresh2) = ebpf_aggregator_new config db topology pods_arc cache fresh1
      in (\<lparr>gs_config = config, gs_ebpf_aggregator = ebpf, gs_k8s_aggregator = k8s, gs_envoy_cache = cache\<rparr>, fresh2))"

definition factory_http :: "server_factory \<Rightarrow> http_server" where
  "factory_http f = http_server_new (sf_config f) (sf_db f) (sf_topology f)"

definition factory_grpc :: "server_factory \<Rightarrow> handle \<Rightarrow> grpc_server \<times> handle" where
  "factory_grpc f = grpc_server_new (sf_config f) (sf_db f) (sf_topology f) (sf_cache f)"

definition factory_query :: "server_factory \<Rightarrow> query_server" where
  "factory_query f = \<lparr>qs_topology = sf_topology f\<rparr>"

text \<open>\<open>run\<close> after the schema: database, topology and Envoy cache first, then the servers.\<close>

definition core_servers :: "qubit_config \<Rightarrow> handle \<Rightarrow> http_server \<times> grpc_server \<times> query_server" where
  "core_servers config fresh =
     (let f = \<lparr>sf_config = config, sf_db = fresh, sf_topology = fresh + 1, sf_cache = fresh + 2\<rparr>
      in (factory_http f, fst (factory_grpc f (fresh + 3)), factory_query f))"

text \<open>Every server and both aggregators use one topology and one database, both aggregators one pod cache, and
  no two parts of the state are confused.\<close>

lemma servers_share:
  assumes "core_servers config fresh = (http, grpc, query)"
  shows "as_topology (hs_state http) = qs_topology query" "ka_topology (gs_k8s_aggregator grpc) = qs_topology query"
    "ea_topology (gs_ebpf_aggregator grpc) = qs_topology query"
    "ka_db (gs_k8s_aggregator grpc) = as_db (hs_state http)" "ea_db (gs_ebpf_aggregator grpc) = as_db (hs_state http)"
    "ka_pod_cache (gs_k8s_aggregator grpc) = ea_pod_cache (gs_ebpf_aggregator grpc)"
    "gs_envoy_cache grpc = ea_envoy_cache (gs_ebpf_aggregator grpc)"
    "distinct [as_db (hs_state http), qs_topology query, gs_envoy_cache grpc, ka_pod_cache (gs_k8s_aggregator grpc),
       ka_service_cache (gs_k8s_aggregator grpc), ea_seen_edges (gs_ebpf_aggregator grpc)]"
  using assms by (auto simp: core_servers_def factory_http_def factory_grpc_def factory_query_def http_server_new_def
      grpc_server_new_def k8s_aggregator_new_def ebpf_aggregator_new_def Let_def)

section \<open>Core\<close>

text \<open>A \<open>select!\<close> of the program and the signal; a panic is \<open>None\<close>.\<close>

datatype 'a race = Finished 'a | Interrupted

definition core_run_result :: "('p, 's, 'e) core_caches \<Rightarrow> ('d, 'i, 'j) clickhouse \<Rightarrow> qubit_config \<Rightarrow> 'd
    \<Rightarrow> (unit, string) rust_result" where
  "core_run_result K C config d = (case core_boot K C config d of Inl e \<Rightarrow> Inl e | Inr _ \<Rightarrow> Inr ())"

definition core_main :: "(string \<Rightarrow> string option) \<Rightarrow> (string \<Rightarrow> qubit_config option)
    \<Rightarrow> (qubit_config \<Rightarrow> (unit, string) rust_result race) \<Rightarrow> (unit, string) rust_result option" where
  "core_main read_to_string from_yaml select =
     (case init_config read_to_string from_yaml None of
        None \<Rightarrow> None
      | Some (config, _) \<Rightarrow> Some (case select config of Finished result \<Rightarrow> result | Interrupted \<Rightarrow> Inr ()))"

text \<open>Core ends with an error exactly when it reads its configuration and the schema cannot be created; a server
  that fails, like one whose port is taken, ends it without an error.\<close>

lemma core_main_fails_iff:
  assumes "\<And>config. select config = Interrupted \<or> select config = Finished (core_run_result K C config d)"
  shows "core_main rd yaml select = Some (Inl e) \<longleftrightarrow>
    (\<exists>config. Option.bind (rd ''config.yaml'') yaml = Some config \<and> select config \<noteq> Interrupted \<and>
       core_boot K C config d = Inl e)"
proof (cases "Option.bind (rd ''config.yaml'') yaml")
  case (Some config)
  then show ?thesis
    using assms [of config]
    by (auto simp: core_main_def init_config_def get_or_init_def core_run_result_def split: sum.splits race.splits)
qed (simp add: core_main_def init_config_def get_or_init_def)

section \<open>The cluster agent\<close>

text \<open>The Kubernetes configuration is a parameter: in-cluster or inferred, and the client made of it. The
  channel to Core is lazy; only its endpoint is parsed.\<close>

record ('c, 'k) kube_ops =
  ku_incluster :: "('c, string) rust_result"
  ku_infer :: "('c, string) rust_result"
  ku_client :: "'c \<Rightarrow> ('k, string) rust_result"

definition agent_main :: "(string \<Rightarrow> string option) \<Rightarrow> (string \<Rightarrow> string option) \<Rightarrow> (string \<Rightarrow> cluster_agent_config option)
    \<Rightarrow> (string \<Rightarrow> bool) \<Rightarrow> ('c, 'k) kube_ops \<Rightarrow> (cluster_agent_config \<Rightarrow> 'k \<Rightarrow> (unit, string) rust_result)
    \<Rightarrow> (unit, string) rust_result option" where
  "agent_main env read_to_string from_yaml valid_endpoint U agent_server =
     (case agent_init_config env read_to_string from_yaml None of
        None \<Rightarrow> None
      | Some (config, _) \<Rightarrow>
          if \<not> valid_endpoint (agent_endpoint config) then None
          else Some
            (case (case ku_incluster U of
                     Inr cfg \<Rightarrow> Inr cfg
                   | Inl _ \<Rightarrow> (case ku_infer U of
                                Inr cfg \<Rightarrow> Inr cfg
                              | Inl e \<Rightarrow> Inl (''failed to infer kube config: '' @ e))) of
               Inl e \<Rightarrow> Inl e
             | Inr kube_cfg \<Rightarrow>
                 (case ku_client U kube_cfg of
                    Inl e \<Rightarrow> Inl (''failed to create kube client: '' @ e)
                  | Inr client \<Rightarrow> agent_server config client)))"

text \<open>The inferred configuration is used only when there is none in the cluster, and only if neither is found
  does the agent fail to configure itself.\<close>

lemma agent_main_configured:
  assumes "agent_init_config env rd yaml None = Some (config, cell)" and "valid (agent_endpoint config)"
  shows "agent_main env rd yaml valid U serve = Some
    (case (ku_incluster U, ku_infer U) of
       (Inl _, Inl e) \<Rightarrow> Inl (''failed to infer kube config: '' @ e)
     | (Inl _, Inr cfg) \<Rightarrow> (case ku_client U cfg of Inl e \<Rightarrow> Inl (''failed to create kube client: '' @ e) | Inr k \<Rightarrow> serve config k)
     | (Inr cfg, _) \<Rightarrow> (case ku_client U cfg of Inl e \<Rightarrow> Inl (''failed to create kube client: '' @ e) | Inr k \<Rightarrow> serve config k))"
  using assms by (simp add: agent_main_def split: sum.split)

section \<open>The assistant's server\<close>

definition mcp_main :: "(mcp_config, string) rust_result \<Rightarrow> (string \<Rightarrow> ('g, string) rust_result)
    \<Rightarrow> ('g \<Rightarrow> ch_client \<Rightarrow> ('v, string) rust_result) \<Rightarrow> ('v \<Rightarrow> (unit, string) rust_result) \<Rightarrow> (unit, string) rust_result" where
  "mcp_main loaded grpc_client_new serve waiting =
     (case loaded of
        Inl e \<Rightarrow> Inl e
      | Inr config \<Rightarrow>
          (case grpc_client_new (mq_grpc_address config) of
             Inl e \<Rightarrow> Inl e
           | Inr grpc \<Rightarrow>
               (case serve grpc (new_ch_client (mq_clickhouse config)) of
                  Inl e \<Rightarrow> Inl e
                | Inr service \<Rightarrow> (case waiting service of Inl e \<Rightarrow> Inl e | Inr _ \<Rightarrow> Inr ()))))"

lemma mcp_main_serves:
  "mcp_main loaded connect serve waiting = Inr () \<longleftrightarrow>
     (\<exists>config grpc service. loaded = Inr config \<and> connect (mq_grpc_address config) = Inr grpc \<and>
        serve grpc (new_ch_client (mq_clickhouse config)) = Inr service \<and> waiting service = Inr ())"
  by (simp add: mcp_main_def split: sum.split)

section \<open>The loader\<close>

definition loader_main :: "'w loader_ops \<Rightarrow> (loader_config \<times> loader_config option) option \<Rightarrow> 'w \<Rightarrow> nat list outcome \<times> 'w" where
  "loader_main L initialised w =
     (case initialised of None \<Rightarrow> (Panicked, w) | Some (config, _) \<Rightarrow> loader_start L config w)"

lemma loader_main_attached:
  assumes "loader_main L initialised w = (Done readers, w')"
  shows "\<exists>fd w1 w2 w3 w4. 0 \<le> fd \<and> op_socket L w1 = (fd, w2) \<and> op_attach L fd w3 = (Inr (), w4)"
  using assms loader_running by (fastforce simp: loader_main_def split: option.splits)

end
