(* ===== verification/Display_Text.thy ===== *)
theory Display_Text
  imports Mcp_Server
begin

text \<open>
  The \<open>Display\<close> implementations of \<^verbatim>\<open>core/src/topology/topology.rs\<close> and \<^verbatim>\<open>core/src/model/model.rs\<close>, the text the
  graph and its events have in the log. The graph is printed in the order of the keys of its callers,
  so that the text does not depend on the order of the hash map.
\<close>

definition display_node :: "node_id \<Rightarrow> string" where
  "display_node n = namespace n @ ''/'' @ application_name n"

definition display_flow :: "flow \<Rightarrow> string" where
  "display_flow f = display_node (source_node f) @ '' '' @ arrow_right @ '' '' @ display_node (destination_node f)
     @ ''  '' @ flow_method f @ '' '' @ flow_path f"

text \<open>\<open>sort_by_key\<close> is a stable sort.\<close>

definition display_topology :: "topology \<Rightarrow> string" where
  "display_topology t =
     (let edge_count = sum_list (map (\<lambda>(_, fs). length fs) (downstream t));
          sources = sort_key display_node (map fst (downstream t))
      in ''Topology: '' @ nat_str (length (nodes t)) @ '' nodes, '' @ nat_str edge_count @ '' edges'' @ nl
         @ concat (map (\<lambda>src. concat (map (\<lambda>f. ''  '' @ display_flow f @ nl) (hm_vec (downstream t) src))) sources))"

definition display_ebpf_event :: "ebpf_network_event \<Rightarrow> string" where
  "display_ebpf_event e =
     ''HTTP: '' @ src_namespace e @ ''/'' @ src_service e @ ''/'' @ src_application e @ '':'' @ nat_str (unat (ev_src_port e))
     @ '' --> '' @ dst_namespace e @ ''/'' @ dst_service e @ ''/'' @ dst_application e @ '':'' @ nat_str (unat (ev_dst_port e))
     @ '' | '' @ ev_method e @ '' '' @ ev_path e @ '' | host='' @ ev_host e"

lemma display_node_key: "display_node = node_key"
  by (simp add: fun_eq_iff display_node_def node_key_def)

text \<open>With distinct keys, sorting by the key gives one list, whatever the order before.\<close>

lemma sort_key_unique:
  assumes "mset xs = mset ys" and "inj_on f (set xs)"
  shows "sort_key f xs = sort_key f ys"
proof -
  have "mset (map f xs) = mset (map f ys)" by (simp only: mset_map assms(1))
  from sort_mset [OF this] have "map f (sort_key f xs) = map f (sort_key f ys)" unfolding sort_map_key .
  moreover have "set ys = set xs" using assms(1) by (metis mset_eq_setD)
  ultimately show ?thesis using assms(2) by (intro map_inj_on [of f]) (simp_all)
qed

lemma display_topology_deterministic:
  assumes "hm_ok (downstream t)" and "slash_free (fst ` set (downstream t))"
    and "mset (downstream t') = mset (downstream t)" and "length (nodes t') = length (nodes t)"
  shows "display_topology t' = display_topology t"
proof -
  have "mset (map fst (downstream t')) = mset (map fst (downstream t))" by (simp only: mset_map assms(3))
  moreover have "set (map fst (downstream t')) = fst ` set (downstream t)"
    using assms(3) by (metis list.set_map mset_eq_setD)
  then have "inj_on display_node (set (map fst (downstream t')))"
    using inj_node_key [OF assms(2)] by (simp only: display_node_key)
  ultimately have "sort_key display_node (map fst (downstream t')) = sort_key display_node (map fst (downstream t))"
    by (rule sort_key_unique)
  moreover have "hm_get (downstream t') = hm_get (downstream t)" using mset_map_of [OF assms(1,3)] by simp
  moreover have "sum_list (map (\<lambda>(_, fs). length fs) (downstream t')) = sum_list (map (\<lambda>(_, fs). length fs) (downstream t))"
    by (simp only: sum_mset_sum_list [symmetric] mset_map assms(3))
  ultimately show ?thesis by (simp only: display_topology_def assms(4))
qed

end
