(* ===== verification/Interleaving.thy ===== *)
theory Interleaving
  imports Grpc_Server "HOL-Library.Multiset"
begin

text \<open>
  Core on a multi-threaded runtime. A handler of the gRPC service and a spawned recording task are
  not atomic: between two accesses to the shared caches, the set of seen pairs and the graph, other
  tasks run. Here every task is a thread whose steps are these accesses: a cache operation, or a
  section under one lock. A schedule says whose step is next. The theory shows which facts of the
  atomic description survive every schedule, that the atomic description is one of the schedules,
  that recording tasks alone are serialisable, and where handlers and recording tasks race.
\<close>

section \<open>Recording an event, access by access\<close>

text \<open>Where a recording task stands and which locals it holds: the source pod, then the destination
  application and namespace, then the destination service. A task that has ended keeps the locals
  from which it computed its edge key, if it came to that.\<close>

type_synonym locals = "pod_info \<times> string \<times> string \<times> string"

datatype record_pc =
    Resolve_Source
  | Ask_Envoy pod_info
  | Ask_Pods pod_info
  | Ask_Service pod_info string string
  | Mark_Seen pod_info string string string
  | Write_Graph pod_info string string string
  | Recorded "(string, core_error) rust_result" "locals option"

fun record_step :: "('p, 's, 'e) core_caches \<Rightarrow> ebpf_network_event_input \<Rightarrow> record_pc
    \<Rightarrow> ('p, 's, 'e) core_state \<Rightarrow> record_pc \<times> ('p, 's, 'e) core_state" where
  "record_step K i Resolve_Source s =
     (if str_contains (in_path i) ''/health'' then (Recorded (Inr ''Skipping health check event!'') None, s)
      else case source_of (pods_ops K) (pod_cache s) (src_ip_str i) of
        None \<Rightarrow> (Recorded (Inr (''unresolved source '' @ [CHR 0xE2, CHR 0x80, CHR 0x94] @ '' waiting for pod event'')) None, s)
      | Some p \<Rightarrow> (Ask_Envoy p, s))"
| "record_step K i (Ask_Envoy p) s =
     (case envoy_get (envoy_ops K) (envoy_cache s) (before_char (CHR '':'') (in_host i)) of
        Some (app, ns) \<Rightarrow> (Ask_Service p app ns, s)
      | None \<Rightarrow> (Ask_Pods p, s))"
| "record_step K i (Ask_Pods p) s =
     (let (app, ns) =
        (case cache_get (pods_ops K) (pod_cache s) (dst_ip_str i) of
           Some info \<Rightarrow> if pod_application_name info \<noteq> []
                         then (pod_application_name info, pod_namespace info)
                         else parse_k8s_host (before_char (CHR '':'') (in_host i))
         | None \<Rightarrow> parse_k8s_host (before_char (CHR '':'') (in_host i)))
      in (Ask_Service p app ns, s))"
| "record_step K i (Ask_Service p app ns) s =
     (Mark_Seen p app ns (dst_service_of (pods_ops K) (pod_cache s) (dst_ip_str i) app), s)"
| "record_step K i (Mark_Seen p app ns svc) s =
     (if poisoned (seen_edges s)
      then (Recorded (Inl (EbpfEventRecordingFailed ''seen_edges lock poisoned'')) (Some (p, app, ns, svc)), s)
      else
        let (is_new_edge, seen) = hs_insert (edge_key (pod_namespace p) (pod_service_name p) ns svc) (inner (seen_edges s));
            s1 = s\<lparr>seen_edges := lock_set seen (seen_edges s)\<rparr>
        in if is_new_edge then (Write_Graph p app ns svc, s1)
           else (Recorded (Inr ''node already exists!'') (Some (p, app, ns, svc)), s1))"
| "record_step K i (Write_Graph p app ns svc) s =
     (if poisoned (topo s)
      then (Recorded (Inl (EbpfEventRecordingFailed ''topology lock poisoned'')) (Some (p, app, ns, svc)), s)
      else (Recorded (Inr ''saved event!'') (Some (p, app, ns, svc)),
            s\<lparr>topo := lock_set (record_call i (mk_node (pod_application_name p) (pod_namespace p))
                 (mk_node app ns) (inner (topo s))) (topo s)\<rparr>))"
| "record_step K i (Recorded r loc) s = (Recorded r loc, s)"

section \<open>Handlers, access by access\<close>

text \<open>What a request handler does does not depend on what it reads: it is a list of accesses.\<close>

datatype action =
    Insert_Pod string pod_info
  | Heal_Pod string string string
  | Remove_Pod string
  | Insert_Service string service_info
  | Remove_Service string
  | Insert_Route string string string
  | Spawn_Task task
  | Attach_Event node_id k8s_event

fun run_action :: "('p, 's, 'e) core_caches \<Rightarrow> action \<Rightarrow> ('p, 's, 'e) core_state \<Rightarrow> ('p, 's, 'e) core_state" where
  "run_action K (Insert_Pod a p) s = s\<lparr>pod_cache := cache_insert (pods_ops K) (pod_cache s) a p\<rparr>"
| "run_action K (Heal_Pod a app ns) s =
     (if poisoned (topo s) then s
      else s\<lparr>topo := lock_set (resolve_unknown_node a app ns (inner (topo s))) (topo s)\<rparr>)"
| "run_action K (Remove_Pod a) s = s\<lparr>pod_cache := cache_remove (pods_ops K) (pod_cache s) a\<rparr>"
| "run_action K (Insert_Service k v) s = s\<lparr>service_cache := cache_insert (services_ops K) (service_cache s) k v\<rparr>"
| "run_action K (Remove_Service k) s = s\<lparr>service_cache := cache_remove (services_ops K) (service_cache s) k\<rparr>"
| "run_action K (Insert_Route d svc ns) s = s\<lparr>envoy_cache := envoy_insert (envoy_ops K) d svc ns (envoy_cache s)\<rparr>"
| "run_action K (Spawn_Task t) s = s\<lparr>spawned := spawned s @ [t]\<rparr>"
| "run_action K (Attach_Event n e) s =
     (if poisoned (topo s) then s
      else s\<lparr>topo := lock_set (add_k8s_event n e (inner (topo s))) (topo s)\<rparr>)"

definition pod_applied_actions :: "string \<Rightarrow> string \<Rightarrow> string \<Rightarrow> string \<Rightarrow> string \<Rightarrow> action list" where
  "pod_applied_actions a ns app svc ty =
     Insert_Pod a \<lparr>pod_namespace = ns, pod_application_name = app, pod_service_name = svc, pod_service_type = ty\<rparr>
       # (if app \<noteq> [] then [Heal_Pod a app ns] else [])"

fun handler_actions :: "((string, string) hash_map \<Rightarrow> string) \<Rightarrow> u64 \<Rightarrow> rpc \<Rightarrow> action list" where
  "handler_actions to_json now (SendEbpfNetworkEvent r) =
     [Spawn_Task (RecordEbpf \<lparr>in_timestamp_ns = rq_timestamp_ns r, src_ip = rq_src_ip r, dst_ip = rq_dst_ip r,
        in_src_port = ucast (rq_src_port r), in_dst_port = ucast (rq_dst_port r),
        in_method = rq_method r, in_path = rq_path r, in_host = rq_host r\<rparr>)]"
| "handler_actions to_json now (SendPodEvent r) =
     (case k8s_event_type_try_from (pe_event_type r) of
        Some Applied \<Rightarrow> pod_applied_actions (pe_pod_ip r) (pe_namespace r) (pe_application_name r)
          (pe_service_name r) (pe_service_type r)
      | Some Deleted \<Rightarrow> [Remove_Pod (pe_pod_ip r)]
      | None \<Rightarrow> [])"
| "handler_actions to_json now (SendServiceEvent r) =
     (case k8s_event_type_try_from (se_event_type r) of
        Some Applied \<Rightarrow> [Insert_Service (slash_key (se_namespace r) (se_name r))
          \<lparr>svc_namespace = se_namespace r, svc_service_type = se_service_type r, svc_cluster_ip = se_cluster_ip r\<rparr>]
      | Some Deleted \<Rightarrow> [Remove_Service (slash_key (se_namespace r) (se_name r))]
      | None \<Rightarrow> [])"
| "handler_actions to_json now (SendConfigMapEvent r) = []"
| "handler_actions to_json now (SendServicePodMap es) =
     concat (map (\<lambda>e. concat (map (\<lambda>a. pod_applied_actions a (sp_namespace e) (sp_application_name e)
       (sp_service_name e) (sp_service_type e)) (sp_pod_ips e))) es)"
| "handler_actions to_json now (SendK8sResourceEvent r) =
     (let acts = (\<lambda>etype.
        [Spawn_Task (PersistK8s \<lparr>event_time = ucast now, kr_resource_type = rr_resource_type r, kr_name = rr_name r,
           kr_namespace = rr_namespace r, kr_event_type = etype, kr_labels = to_json (rr_labels r),
           kr_resource_data = rr_resource_data r\<rparr>),
         Attach_Event (mk_node (rr_name r) (rr_namespace r))
           \<lparr>timestamp = now, resource_name = rr_name r, resource_type = rr_resource_type r,
            event_type = etype, event_data = rr_resource_data r\<rparr>])
      in case k8s_event_type_try_from (rr_event_type r) of
        Some Applied \<Rightarrow> acts ''Applied'' | Some Deleted \<Rightarrow> acts ''Deleted'' | None \<Rightarrow> [])"
| "handler_actions to_json now (SendEnvoyRoutes es) =
     map (\<lambda>e. Insert_Route (er_domain e) (er_service_name e) (er_namespace e)) es"

section \<open>Threads and schedules\<close>

datatype thread =
    Recorder ebpf_network_event_input record_pc
  | Handler "action list"

fun thread_step :: "('p, 's, 'e) core_caches \<Rightarrow> thread \<Rightarrow> ('p, 's, 'e) core_state
    \<Rightarrow> thread \<times> ('p, 's, 'e) core_state" where
  "thread_step K (Recorder i pc) s = (let (pc', s') = record_step K i pc s in (Recorder i pc', s'))"
| "thread_step K (Handler []) s = (Handler [], s)"
| "thread_step K (Handler (a # as)) s = (Handler as, run_action K a s)"

text \<open>How many steps a thread has left at most.\<close>

fun pc_todo :: "record_pc \<Rightarrow> nat" where
  "pc_todo Resolve_Source = 6"
| "pc_todo (Ask_Envoy _) = 5"
| "pc_todo (Ask_Pods _) = 4"
| "pc_todo (Ask_Service _ _ _) = 3"
| "pc_todo (Mark_Seen _ _ _ _) = 2"
| "pc_todo (Write_Graph _ _ _ _) = 1"
| "pc_todo (Recorded _ _) = 0"

fun todo :: "thread \<Rightarrow> nat" where
  "todo (Recorder i pc) = pc_todo pc"
| "todo (Handler as) = length as"

text \<open>The states of the runtime: the shared state and the threads, finished ones included. New
  threads are the handlers of requests and the tasks handlers have spawned. A schedule lists the
  positions of the threads whose steps are taken.\<close>

type_synonym ('p, 's, 'e) pool = "('p, 's, 'e) core_state \<times> thread list"

definition step_at :: "('t \<Rightarrow> 'st \<Rightarrow> 't \<times> 'st) \<Rightarrow> nat \<Rightarrow> 'st \<times> 't list \<Rightarrow> 'st \<times> 't list" where
  "step_at adv k = (\<lambda>(s, ts).
     if k < length ts then (let (t', s') = adv (ts ! k) s in (s', ts[k := t'])) else (s, ts))"

definition run_schedule :: "('t \<Rightarrow> 'st \<Rightarrow> 't \<times> 'st) \<Rightarrow> nat list \<Rightarrow> 'st \<times> 't list \<Rightarrow> 'st \<times> 't list" where
  "run_schedule adv ks P = fold (step_at adv) ks P"

inductive pool_work :: "('p, 's, 'e) core_caches \<Rightarrow> ('p, 's, 'e) pool \<Rightarrow> ('p, 's, 'e) pool \<Rightarrow> bool"
  for K :: "('p, 's, 'e) core_caches" where
  start_recording: "spawned s = xs @ RecordEbpf i # ys \<Longrightarrow>
    pool_work K (s, ts) (s\<lparr>spawned := xs @ ys\<rparr>, ts @ [Recorder i Resolve_Source])"
| start_persisting: "spawned s = xs @ PersistK8s e # ys \<Longrightarrow> pool_work K (s, ts) (s\<lparr>spawned := xs @ ys\<rparr>, ts)"
| advance: "pool_work K P (step_at (thread_step K) k P)"

definition receive :: "((string, string) hash_map \<Rightarrow> string) \<Rightarrow> u64 \<Rightarrow> rpc \<Rightarrow> ('p, 's, 'e) pool \<Rightarrow> ('p, 's, 'e) pool" where
  "receive to_json now r = (\<lambda>(s, ts). (s, ts @ [Handler (handler_actions to_json now r)]))"

inductive pool_step :: "('p, 's, 'e) core_caches \<Rightarrow> ((string, string) hash_map \<Rightarrow> string)
    \<Rightarrow> ('p, 's, 'e) pool \<Rightarrow> ('p, 's, 'e) pool \<Rightarrow> bool"
  for K :: "('p, 's, 'e) core_caches" and to_json :: "(string, string) hash_map \<Rightarrow> string" where
  arrive: "pool_step K to_json P (receive to_json now r P)"
| work: "pool_work K P P' \<Longrightarrow> pool_step K to_json P P'"

inductive pool_reachable :: "('p, 's, 'e) core_caches \<Rightarrow> ((string, string) hash_map \<Rightarrow> string)
    \<Rightarrow> ('p, 's, 'e) pool \<Rightarrow> bool"
  for K :: "('p, 's, 'e) core_caches" and to_json :: "(string, string) hash_map \<Rightarrow> string" where
  start: "pool_reachable K to_json (init_core K, [])"
| step: "pool_reachable K to_json P \<Longrightarrow> pool_step K to_json P P' \<Longrightarrow> pool_reachable K to_json P'"

section \<open>Schedules\<close>

text \<open>What a thread promises the scheduler: it stops when it has nothing left to do, and until then
  every step of its own brings it closer.\<close>

locale stepper =
  fixes adv :: "'t \<Rightarrow> 'st \<Rightarrow> 't \<times> 'st" and left :: "'t \<Rightarrow> nat"
  assumes progress: "0 < left t \<Longrightarrow> left (fst (adv t s)) < left t"
    and idle: "left t = 0 \<Longrightarrow> adv t s = (t, s)"
begin

lemma length_step [simp]: "length (snd (step_at adv k P)) = length (snd P)"
  by (cases P) (simp add: step_at_def case_prod_unfold Let_def)

lemma length_run [simp]: "length (snd (run_schedule adv ks P)) = length (snd P)"
  by (induction ks arbitrary: P) (simp_all add: run_schedule_def)

lemma left_step:
  assumes "j < length (snd P)"
  shows "left (snd (step_at adv k P) ! j) \<le> left (snd P ! j) - (if j = k then 1 else 0)"
proof (cases "left (snd P ! j) = 0")
  case True
  then show ?thesis using assms idle by (cases P) (auto simp: step_at_def case_prod_unfold Let_def nth_list_update)
next
  case False
  then show ?thesis using assms progress [of "snd P ! j" "fst P"]
    by (cases P) (auto simp: step_at_def case_prod_unfold Let_def nth_list_update)
qed

lemma left_run:
  "j < length (snd P) \<Longrightarrow> left (snd (run_schedule adv ks P) ! j) \<le> left (snd P ! j) - count_list ks j"
proof (induction ks arbitrary: P)
  case Nil
  then show ?case by (simp add: run_schedule_def)
next
  case (Cons k ks)
  show ?case
    using Cons.IH [of "step_at adv k P"] left_step [OF Cons.prems, of k] Cons.prems
    by (simp add: run_schedule_def split: if_splits)
qed

text \<open>A thread that is scheduled often enough is finished, whatever the others do.\<close>

lemma scheduled_finishes:
  "j < length (snd P) \<Longrightarrow> left (snd P ! j) \<le> count_list ks j \<Longrightarrow> left (snd (run_schedule adv ks P) ! j) = 0"
  using left_run [of j P ks] by simp

end

lemma record_step_progress: "0 < pc_todo pc \<Longrightarrow> pc_todo (fst (record_step K i pc s)) < pc_todo pc"
  by (cases pc) (auto simp: case_prod_unfold Let_def split: option.splits)

interpretation threads: stepper "thread_step K" todo
proof
  fix t :: thread and s
  assume "0 < todo t"
  then show "todo (fst (thread_step K t s)) < todo t"
    using record_step_progress by (cases "(K, t, s)" rule: thread_step.cases) (auto simp: case_prod_unfold Let_def)
next
  fix t :: thread and s
  assume "todo t = 0"
  then show "thread_step K t s = (t, s)"
    by (cases "(K, t, s)" rule: thread_step.cases) (auto elim!: pc_todo.elims)
qed

section \<open>A thread on its own\<close>

text \<open>Running one thread without interference is running the handler, or recording the event, in
  one piece.\<close>

lemma run_schedule_simps [simp]:
  "run_schedule adv [] P = P"
  "run_schedule adv (k # ks) P = run_schedule adv ks (step_at adv k P)"
  "run_schedule adv (ks @ ls) P = run_schedule adv ls (run_schedule adv ks P)"
  by (simp_all add: run_schedule_def)

lemma step_at_split:
  "k = length us \<Longrightarrow> step_at adv k (s, us @ t # vs) = (let (t', s') = adv t s in (s', us @ t' # vs))"
  by (simp add: step_at_def nth_append case_prod_unfold Let_def)

lemmas step_at_last = step_at_split [OF refl, where vs = "[]"]

lemma solo_handler:
  "run_schedule (thread_step K) (replicate (length as) (length ts)) (s, ts @ [Handler as]) =
     (fold (run_action K) as s, ts @ [Handler []])"
  by (induction as arbitrary: s) (simp_all add: step_at_last)

lemma solo_recorder:
  "\<exists>loc. run_schedule (thread_step K) (replicate 6 (length ts)) (s, ts @ [Recorder i Resolve_Source]) =
     (snd (record_ebpf_event K i s), ts @ [Recorder i (Recorded (fst (record_ebpf_event K i s)) loc)])"
  by (simp add: numeral_eq_Suc step_at_last record_ebpf_event_def destination_of_def Let_def case_prod_unfold
      split: option.split)

lemma pod_applied_actions_run:
  "fold (run_action K) (pod_applied_actions a ns app svc ty) = record_pod_applied K a ns app svc ty"
  by (rule ext) (simp add: pod_applied_actions_def record_pod_applied_def Let_def)

lemma fold_concat_map: "fold f (concat (map g xs)) = fold (\<lambda>x. fold f (g x)) xs"
  by (induction xs) simp_all

lemma handler_actions_run:
  "fold (run_action K) (handler_actions to_json now r) s = snd (handle_rpc K to_json now r s)"
proof (cases r)
  case (SendServicePodMap es)
  then show ?thesis
    by (simp add: send_service_pod_map_def fold_concat_map pod_applied_actions_run apply_pod_entry_def [abs_def])
next
  case (SendEnvoyRoutes es)
  have "fold (run_action K) (map (\<lambda>e. Insert_Route (er_domain e) (er_service_name e) (er_namespace e)) es) s =
      s\<lparr>envoy_cache := fold (\<lambda>e. envoy_insert (envoy_ops K) (er_domain e) (er_service_name e) (er_namespace e)) es
          (envoy_cache s)\<rparr>"
    by (induction es arbitrary: s) simp_all
  then show ?thesis using SendEnvoyRoutes by (simp add: send_envoy_routes_def)
qed (simp_all add: send_ebpf_network_event_def send_pod_event_def send_service_event_def send_config_map_event_def
    send_k8s_resource_event_def pod_applied_actions_run record_pod_deleted_def record_service_applied_def
    record_service_deleted_def record_k8s_resource_event_def Let_def split: option.split k8s_event_type.split)

text \<open>The atomic machine is one way to schedule the threads.\<close>

lemma pool_reachable_schedule:
  "pool_reachable K to_json P \<Longrightarrow> pool_reachable K to_json (run_schedule (thread_step K) ks P)"
proof (induction ks arbitrary: P)
  case (Cons k ks)
  show ?case using Cons.IH [OF pool_reachable.step [OF Cons.prems pool_step.work [OF pool_work.advance]]] by simp
qed simp

section \<open>What survives every schedule\<close>

fun pc_ok :: "record_pc \<Rightarrow> bool" where
  "pc_ok Resolve_Source = True"
| "pc_ok (Ask_Envoy p) = (pod_application_name p \<noteq> [])"
| "pc_ok (Ask_Pods p) = (pod_application_name p \<noteq> [])"
| "pc_ok (Ask_Service p _ _) = (pod_application_name p \<noteq> [])"
| "pc_ok (Mark_Seen p _ _ _) = (pod_application_name p \<noteq> [])"
| "pc_ok (Write_Graph p _ _ _) = (pod_application_name p \<noteq> [])"
| "pc_ok (Recorded r _) = (\<exists>msg. r = Inr msg)"

fun action_ok :: "action \<Rightarrow> bool" where
  "action_ok (Heal_Pod a app ns) = (app \<noteq> [])"
| "action_ok _ = True"

fun thread_ok :: "thread \<Rightarrow> bool" where
  "thread_ok (Recorder i pc) = pc_ok pc"
| "thread_ok (Handler as) = (\<forall>a \<in> set as. action_ok a)"

text \<open>The threads that have marked their pair as seen: those that still have to write the graph and
  those that have written it.\<close>

fun writing :: "thread \<Rightarrow> bool" where
  "writing (Recorder i (Write_Graph p app ns svc)) = True"
| "writing _ = False"

fun saved :: "thread \<Rightarrow> bool" where
  "saved (Recorder i (Recorded r loc)) = (r = Inr ''saved event!'')"
| "saved _ = False"

text \<open>The service pair of such a thread, and that of a thread that found its pair seen.\<close>

fun locals_key :: "locals \<Rightarrow> string" where
  "locals_key (p, app, ns, svc) = edge_key (pod_namespace p) (pod_service_name p) ns svc"

fun marked_key :: "thread \<Rightarrow> string option" where
  "marked_key (Recorder i (Write_Graph p app ns svc)) = Some (locals_key (p, app, ns, svc))"
| "marked_key (Recorder i (Recorded r loc)) = (if r = Inr ''saved event!'' then map_option locals_key loc else None)"
| "marked_key _ = None"

definition marked_keys :: "thread list \<Rightarrow> string list" where
  "marked_keys ts = List.map_filter marked_key ts"

lemma marked_keys_simps [simp]:
  "marked_keys [] = []"
  "marked_keys (t # ts) = (case marked_key t of None \<Rightarrow> marked_keys ts | Some k \<Rightarrow> k # marked_keys ts)"
  "marked_keys (us @ vs) = marked_keys us @ marked_keys vs"
  by (simp_all add: marked_keys_def List.map_filter_def split: option.split)

text \<open>A task that has ended with an answer that needs its locals has them; one that was deduplicated
  has a pair of the set.\<close>

fun ended_ok :: "string set \<Rightarrow> thread \<Rightarrow> bool" where
  "ended_ok seen (Recorder i (Recorded r loc)) =
     ((r = Inr ''saved event!'' \<longrightarrow> loc \<noteq> None) \<and> (\<forall>l. loc = Some l \<longrightarrow> locals_key l \<in> seen))"
| "ended_ok seen _ = True"

lemma ended_ok_mono: "ended_ok A t \<Longrightarrow> A \<subseteq> B \<Longrightarrow> ended_ok B t"
  by (cases "(A, t)" rule: ended_ok.cases) auto

definition how_many :: "(thread \<Rightarrow> bool) \<Rightarrow> thread list \<Rightarrow> nat" where
  "how_many P ts = length (filter P ts)"

lemma how_many_simps [simp]:
  "how_many P [] = 0" "how_many P (t # ts) = (if P t then Suc (how_many P ts) else how_many P ts)"
  "how_many P (us @ vs) = how_many P us + how_many P vs"
  by (simp_all add: how_many_def)

definition runtime_inv :: "('p, 's, 'e) pool \<Rightarrow> bool" where
  "runtime_inv = (\<lambda>(s, ts). topo_inv (inner (topo s)) \<and> sources_named (inner (topo s)) \<and> no_isolated (inner (topo s)) \<and>
     \<not> poisoned (seen_edges s) \<and> \<not> poisoned (topo s) \<and> (\<forall>t \<in> set ts. thread_ok t) \<and>
     card (flow_set (inner (topo s))) \<le> how_many saved ts \<and>
     (\<forall>t \<in> set ts. ended_ok (set (inner (seen_edges s))) t) \<and>
     distinct (marked_keys ts) \<and> set (marked_keys ts) = set (inner (seen_edges s)))"

lemma marked_saved_writing:
  "\<forall>t \<in> set ts. ended_ok A t \<Longrightarrow> length (marked_keys ts) = how_many saved ts + how_many writing ts"
proof (induction ts)
  case (Cons t ts)
  have "marked_key t \<noteq> None \<longleftrightarrow> saved t \<or> writing t" "\<not> (saved t \<and> writing t)"
    using Cons.prems by (cases t rule: marked_key.cases; auto)+
  then show ?case using Cons by (auto split: option.split)
qed simp

lemma set_marked_keys:
  "set (marked_keys ts) = {edge_key (pod_namespace p) (pod_service_name p) ns svc | p app ns svc i.
     Recorder i (Write_Graph p app ns svc) \<in> set ts \<or>
     Recorder i (Recorded (Inr ''saved event!'') (Some (p, app, ns, svc))) \<in> set ts}"
proof -
  have m: "marked_key t = Some k \<longleftrightarrow> (\<exists>p app ns svc i. k = edge_key (pod_namespace p) (pod_service_name p) ns svc \<and>
     (t = Recorder i (Write_Graph p app ns svc) \<or> t = Recorder i (Recorded (Inr ''saved event!'') (Some (p, app, ns, svc)))))" for t k
    by (cases t rule: marked_key.cases) auto
  have "set (marked_keys ts) = {k. \<exists>t \<in> set ts. marked_key t = Some k}"
    by (induction ts) (auto split: option.splits)
  then show ?thesis unfolding m by blast
qed

text \<open>One step of one thread, the others in front of and behind it unchanged.\<close>

lemma source_named: "source_of PC pods a = Some p \<Longrightarrow> pod_application_name p \<noteq> []"
  by (auto simp: source_of_def split: option.splits if_splits)

lemma runtime_inv_recorder:
  assumes inv: "runtime_inv (s, us @ Recorder i pc # vs)" and st: "record_step K i pc s = (pc', s')"
  shows "runtime_inv (s', us @ Recorder i pc' # vs)"
proof (cases pc)
  case (Write_Graph p app ns svc)
  then show ?thesis
    using inv st record_call_keeps [of "inner (topo s)" "mk_node (pod_application_name p) (pod_namespace p)" i "mk_node app ns"]
    by (auto simp: runtime_inv_def record_call_graph)
next
  case (Mark_Seen p app ns svc)
  then show ?thesis
    using inv st by (auto simp: runtime_inv_def hs_insert_def List.insert_def Let_def split: if_splits intro: ended_ok_mono)
qed (use inv st in \<open>auto simp: runtime_inv_def Let_def source_named split: if_splits option.splits prod.splits\<close>)

lemma runtime_inv_handler:
  assumes inv: "runtime_inv (s, us @ Handler (a # as) # vs)"
  shows "runtime_inv (run_action K a s, us @ Handler as # vs)"
proof (cases a)
  case (Heal_Pod b app ns)
  then show ?thesis
    using inv heal_keeps [of "inner (topo s)" app b ns] by (auto simp: runtime_inv_def topo.inv_heal)
next
  case (Attach_Event n e)
  then show ?thesis
    using inv by (auto simp: runtime_inv_def topo.inv_put_event sources_named_def no_isolated_def)
qed (use inv in \<open>simp_all add: runtime_inv_def\<close>)

text \<open>A step is idle, or the step of one thread between the others.\<close>

lemma step_at_induct [case_names idle step]:
  assumes "Q P"
    and "\<And>s us t vs t' s'. P = (s, us @ t # vs) \<Longrightarrow> adv t s = (t', s') \<Longrightarrow> Q (s', us @ t' # vs)"
  shows "Q (step_at adv k P)"
proof (cases P)
  case (Pair s ts)
  show ?thesis
  proof (cases "k < length ts")
    case True
    obtain t' s' where st: "adv (ts ! k) s = (t', s')" by fastforce
    have "Q (s', take k ts @ t' # drop (Suc k) ts)"
      by (rule assms(2) [OF _ st]) (simp add: Pair id_take_nth_drop [OF True, symmetric])
    then show ?thesis using Pair True st by (simp add: step_at_def upd_conv_take_nth_drop)
  qed (use assms(1) Pair in \<open>simp add: step_at_def\<close>)
qed

lemma runtime_inv_step_at:
  assumes "runtime_inv P"
  shows "runtime_inv (step_at (thread_step K) k P)"
proof (rule step_at_induct)
  show "runtime_inv P" by fact
  show "runtime_inv (s', us @ t' # vs)" if "P = (s, us @ t # vs)" "thread_step K t s = (t', s')" for s us t vs t' s'
    using that assms runtime_inv_recorder [where us = us and vs = vs] runtime_inv_handler [where us = us and vs = vs]
    by (cases "(K, t, s)" rule: thread_step.cases) (auto split: prod.splits)
qed

lemma not_applied [simp]: "ty \<noteq> Applied \<longleftrightarrow> ty = Deleted"
  by (cases ty) simp_all

lemma handler_actions_ok: "a \<in> set (handler_actions to_json now r) \<Longrightarrow> action_ok a"
  by (cases r) (auto simp: pod_applied_actions_def Let_def
      split: option.splits k8s_event_type.splits if_splits)

lemma runtime_inv_work: "pool_work K P P' \<Longrightarrow> runtime_inv P \<Longrightarrow> runtime_inv P'"
  by (induction rule: pool_work.induct) (simp_all add: runtime_inv_step_at, simp_all add: runtime_inv_def)

lemma runtime_inv_receive: "runtime_inv P \<Longrightarrow> runtime_inv (receive to_json now r P)"
  by (auto simp: runtime_inv_def receive_def handler_actions_ok)

lemma runtime_inv_step: "pool_step K to_json P P' \<Longrightarrow> runtime_inv P \<Longrightarrow> runtime_inv P'"
  by (induction rule: pool_step.induct) (simp_all add: runtime_inv_receive runtime_inv_work)

lemma runtime_inv_init: "runtime_inv (init_core K, [])"
  using core_inv_init [of K] by (simp add: runtime_inv_def core_inv_def init_core_def)

lemma runtime_inv_reachable: "pool_reachable K to_json P \<Longrightarrow> runtime_inv P"
  by (induction rule: pool_reachable.induct) (simp_all add: runtime_inv_init runtime_inv_step)

lemma runtime_inv_flows:
  assumes "runtime_inv (s, ts)"
  shows "card (flow_set (inner (topo s))) \<le> card (set (inner (seen_edges s)))"
proof -
  have "card (flow_set (inner (topo s))) \<le> how_many saved ts" using assms by (simp add: runtime_inv_def)
  also have "\<dots> \<le> length (marked_keys ts)"
    using assms marked_saved_writing [of ts "set (inner (seen_edges s))"] by (simp add: runtime_inv_def)
  also have "\<dots> = card (set (inner (seen_edges s)))" using assms by (simp add: runtime_inv_def distinct_card [symmetric])
  finally show ?thesis .
qed

section \<open>Recording tasks are serialisable\<close>

text \<open>The events of a pool of recording tasks, and the pairs whose task has still to write the graph.\<close>

fun event_of :: "thread \<Rightarrow> ebpf_network_event_input option" where
  "event_of (Recorder i pc) = Some i"
| "event_of (Handler as) = None"

definition record_all :: "('p, 's, 'e) core_caches \<Rightarrow> ebpf_network_event_input list \<Rightarrow> ('p, 's, 'e) core_state
    \<Rightarrow> ('p, 's, 'e) core_state" where
  "record_all K is s = fold (\<lambda>i s. snd (record_ebpf_event K i s)) is s"

text \<open>With the caches at rest, the locals of a task are those of the attribution of its event.\<close>

definition source_found :: "('p, 's, 'e) core_caches \<Rightarrow> ('p, 's, 'e) core_state \<Rightarrow> ebpf_network_event_input
    \<Rightarrow> pod_info \<Rightarrow> bool" where
  "source_found K s i p \<longleftrightarrow> \<not> str_contains (in_path i) ''/health'' \<and>
     source_of (pods_ops K) (pod_cache s) (src_ip_str i) = Some p"

definition destination_found :: "('p, 's, 'e) core_caches \<Rightarrow> ('p, 's, 'e) core_state \<Rightarrow> ebpf_network_event_input
    \<Rightarrow> string \<Rightarrow> string \<Rightarrow> bool" where
  "destination_found K s i app ns \<longleftrightarrow>
     destination_of K (envoy_cache s) (pod_cache s) (before_char (CHR '':'') (in_host i)) (dst_ip_str i) = (app, ns)"

fun pc_agrees :: "('p, 's, 'e) core_caches \<Rightarrow> ('p, 's, 'e) core_state \<Rightarrow> ebpf_network_event_input \<Rightarrow> record_pc \<Rightarrow> bool" where
  "pc_agrees K s i (Ask_Envoy p) = source_found K s i p"
| "pc_agrees K s i (Ask_Pods p) = (source_found K s i p \<and>
     envoy_get (envoy_ops K) (envoy_cache s) (before_char (CHR '':'') (in_host i)) = None)"
| "pc_agrees K s i (Ask_Service p app ns) = (source_found K s i p \<and> destination_found K s i app ns)"
| "pc_agrees K s i (Mark_Seen p app ns svc) = (source_found K s i p \<and> destination_found K s i app ns \<and>
     svc = dst_service_of (pods_ops K) (pod_cache s) (dst_ip_str i) app)"
| "pc_agrees K s i (Write_Graph p app ns svc) = (source_found K s i p \<and> destination_found K s i app ns)"
| "pc_agrees K s i _ = True"

definition key_of :: "('p, 's, 'e) core_caches \<Rightarrow> ('p, 's, 'e) core_state \<Rightarrow> ebpf_network_event_input \<Rightarrow> string" where
  "key_of K s i = (case edge_of K i s of None \<Rightarrow> [] | Some (_, _, key) \<Rightarrow> key)"

text \<open>A task that ended without writing the graph had nothing to write.\<close>

definition absorbed :: "('p, 's, 'e) core_caches \<Rightarrow> ('p, 's, 'e) core_state \<Rightarrow> ebpf_network_event_input \<Rightarrow> string set \<Rightarrow> bool" where
  "absorbed K s i seen \<longleftrightarrow> edge_of K i s = None \<or> key_of K s i \<in> seen"

fun thread_agrees :: "('p, 's, 'e) core_caches \<Rightarrow> ('p, 's, 'e) core_state \<Rightarrow> string set \<Rightarrow> thread \<Rightarrow> bool" where
  "thread_agrees K s seen (Recorder i pc) = (pc_agrees K s i pc \<and>
     (\<forall>r loc. pc = Recorded r loc \<longrightarrow> absorbed K s i seen))"
| "thread_agrees K s seen (Handler as) = False"

fun open_keys :: "('p, 's, 'e) core_caches \<Rightarrow> ('p, 's, 'e) core_state \<Rightarrow> thread list \<Rightarrow> string list" where
  "open_keys K s [] = []"
| "open_keys K s (Recorder i pc # ts) =
     (if writing (Recorder i pc) then key_of K s i # open_keys K s ts else open_keys K s ts)"
| "open_keys K s (Handler as # ts) = open_keys K s ts"

fun saved_events :: "thread list \<Rightarrow> ebpf_network_event_input multiset" where
  "saved_events [] = {#}"
| "saved_events (Recorder i pc # ts) =
     (if saved (Recorder i pc) then add_mset i (saved_events ts) else saved_events ts)"
| "saved_events (Handler as # ts) = saved_events ts"

text \<open>The relation between a schedule so far and the sequential run \<open>js\<close>.\<close>

definition serial_so_far :: "('p, 's, 'e) core_caches \<Rightarrow> ('p, 's, 'e) core_state \<Rightarrow> ebpf_network_event_input list
    \<Rightarrow> ('p, 's, 'e) pool \<Rightarrow> bool" where
  "serial_so_far K s0 js = (\<lambda>(s, ts).
     s\<lparr>seen_edges := seen_edges s0, topo := topo s0\<rparr> = s0 \<and>
     \<not> poisoned (seen_edges s) \<and> \<not> poisoned (topo s) \<and> \<not> poisoned (seen_edges s0) \<and> \<not> poisoned (topo s0) \<and>
     (\<forall>t \<in> set ts. thread_agrees K s0 (set (inner (seen_edges s))) t) \<and>
     inner (topo s) = inner (topo (record_all K js s0)) \<and>
     distinct (open_keys K s0 ts) \<and>
     set (open_keys K s0 ts) \<inter> set (inner (seen_edges (record_all K js s0))) = {} \<and>
     set (inner (seen_edges s)) = set (inner (seen_edges (record_all K js s0))) \<union> set (open_keys K s0 ts) \<and>
     mset js = saved_events ts)"

lemma open_keys_append [simp]: "open_keys K s (us @ vs) = open_keys K s us @ open_keys K s vs"
  by (induction K s us rule: open_keys.induct) auto

lemma saved_events_append [simp]: "saved_events (us @ vs) = saved_events us + saved_events vs"
  by (induction us rule: saved_events.induct) auto

lemma record_all_snoc [simp]: "record_all K (js @ [i]) s = snd (record_ebpf_event K i (record_all K js s))"
  by (simp add: record_all_def)

lemma record_all_frame [simp]:
  "poisoned (seen_edges (record_all K js s)) = poisoned (seen_edges s)"
  "poisoned (topo (record_all K js s)) = poisoned (topo s)"
  "edge_of K i (record_all K js s) = edge_of K i s"
  "pod_cache (record_all K js s) = pod_cache s" "envoy_cache (record_all K js s) = envoy_cache s"
  by (induction js rule: rev_induct) (simp_all, simp_all add: record_all_def)

lemma attribution_found:
  assumes "source_found K s i p" and "destination_found K s i app ns"
  shows "edge_of K i s = Some (mk_node (pod_application_name p) (pod_namespace p), mk_node app ns,
    edge_key (pod_namespace p) (pod_service_name p) ns (dst_service_of (pods_ops K) (pod_cache s) (dst_ip_str i) app))"
  using assms by (simp add: source_found_def destination_found_def edge_of_def)

lemma absorbed_mono: "absorbed K s i A \<Longrightarrow> A \<subseteq> B \<Longrightarrow> absorbed K s i B"
  by (auto simp: absorbed_def)

lemma thread_agrees_mono: "thread_agrees K s A t \<Longrightarrow> A \<subseteq> B \<Longrightarrow> thread_agrees K s B t"
  by (cases t) (auto intro: absorbed_mono)

lemma absorbed_noop:
  assumes "absorbed K s i (set (inner (seen_edges s)))"
  shows "snd (record_ebpf_event K i s) = s"
  using assms by (auto simp: absorbed_def key_of_def record_state split: option.split)

lemma serial_caches:
  assumes "serial_so_far K s0 js (s, ts)"
  shows "pod_cache s = pod_cache s0" "envoy_cache s = envoy_cache s0"
proof -
  have "s\<lparr>seen_edges := seen_edges s0, topo := topo s0\<rparr> = s0" using assms by (simp add: serial_so_far_def)
  from arg_cong [OF this, of pod_cache] arg_cong [OF this, of envoy_cache]
  show "pod_cache s = pod_cache s0" "envoy_cache s = envoy_cache s0" by simp_all
qed

text \<open>A lookup of a task leaves the relation as it is.\<close>

lemma serial_lookup:
  assumes ser: "serial_so_far K s0 js (s, us @ Recorder i pc # vs)"
    and "pc_agrees K s0 i pc'" and "\<not> writing (Recorder i pc)" and "\<not> saved (Recorder i pc)"
    and "\<not> writing (Recorder i pc')" and "\<not> saved (Recorder i pc')"
    and "\<And>r loc. pc' = Recorded r loc \<Longrightarrow> absorbed K s0 i (set (inner (seen_edges s)))"
  shows "serial_so_far K s0 js (s, us @ Recorder i pc' # vs)"
  using assms by (auto simp: serial_so_far_def)

lemma serial_mark:
  assumes ser: "serial_so_far K s0 js (s, us @ Recorder i (Mark_Seen p app ns svc) # vs)"
    and st: "record_step K i (Mark_Seen p app ns svc) s = (pc', s')"
  shows "serial_so_far K s0 js (s', us @ Recorder i pc' # vs)"
proof -
  have found: "source_found K s0 i p" "destination_found K s0 i app ns"
    and svc: "svc = dst_service_of (pods_ops K) (pod_cache s0) (dst_ip_str i) app"
    using ser by (simp_all add: serial_so_far_def)
  define key where "key = edge_key (pod_namespace p) (pod_service_name p) ns svc"
  have key: "key_of K s0 i = key" using attribution_found [OF found] by (simp add: key_of_def key_def svc)
  have ok: "\<not> poisoned (seen_edges s)" using ser by (simp add: serial_so_far_def)
  show ?thesis
  proof (cases "key \<in> set (inner (seen_edges s))")
    case True
    then have "pc' = Recorded (Inr ''node already exists!'') (Some (p, app, ns, svc))" "s' = s"
      using st ok by (simp_all add: hs_insert_def List.insert_def key_def [symmetric])
    then show ?thesis using serial_lookup [OF ser, of pc'] True key by (simp add: absorbed_def)
  next
    case False
    then have "pc' = Write_Graph p app ns svc" "s' = s\<lparr>seen_edges := lock_set (key # inner (seen_edges s)) (seen_edges s)\<rparr>"
      using st ok by (simp_all add: hs_insert_def List.insert_def key_def [symmetric])
    then show ?thesis
      using ser False key by (auto simp: serial_so_far_def intro: thread_agrees_mono)
  qed
qed

lemma serial_write:
  assumes ser: "serial_so_far K s0 js (s, us @ Recorder i (Write_Graph p app ns svc) # vs)"
    and st: "record_step K i (Write_Graph p app ns svc) s = (pc', s')"
  shows "serial_so_far K s0 (js @ [i]) (s', us @ Recorder i pc' # vs)"
proof -
  have found: "source_found K s0 i p" "destination_found K s0 i app ns"
    using ser by (simp_all add: serial_so_far_def)
  let ?src = "mk_node (pod_application_name p) (pod_namespace p)" and ?dst = "mk_node app ns"
  let ?r = "record_all K js s0"
  have edge: "edge_of K i s0 = Some (?src, ?dst, key_of K s0 i)"
    using attribution_found [OF found] by (simp add: key_of_def)
  have ok: "\<not> poisoned (topo s)" using ser by (simp add: serial_so_far_def)
  have "\<not> poisoned (seen_edges s0)" "\<not> poisoned (topo s0)" using ser by (simp_all add: serial_so_far_def)
  then have "snd (record_ebpf_event K i ?r) =
      ?r\<lparr>seen_edges := lock_set (key_of K s0 i # inner (seen_edges ?r)) (seen_edges ?r),
         topo := lock_set (record_call i ?src ?dst (inner (topo ?r))) (topo ?r)\<rparr>"
    using ser edge by (auto simp: record_state serial_so_far_def Let_def)
  then show ?thesis
    using ser st ok edge by (auto simp: serial_so_far_def absorbed_def)
qed

lemma serial_record_step:
  assumes ser: "serial_so_far K s0 js (s, us @ Recorder i pc # vs)" and st: "record_step K i pc s = (pc', s')"
  shows "\<exists>js'. serial_so_far K s0 js' (s', us @ Recorder i pc' # vs)"
proof -
  note here = serial_lookup [OF ser, of pc']
  have ag: "pc_agrees K s0 i pc" using ser by (simp add: serial_so_far_def)
  note look = source_found_def destination_found_def destination_of_def serial_caches [OF ser] absorbed_def
  show ?thesis
  proof (cases pc)
    case Resolve_Source
    then show ?thesis
      using st here by (auto simp: look edge_of_def split: if_splits option.splits)
  next
    case (Ask_Envoy p)
    then show ?thesis using st here ag by (auto simp: look split: option.splits)
  next
    case (Ask_Pods p)
    then show ?thesis using st here ag
      by (auto simp: look Let_def split: option.splits prod.splits if_splits)
  next
    case (Ask_Service p app ns)
    then show ?thesis using st here ag by (auto simp: look)
  next
    case (Mark_Seen p app ns svc)
    then show ?thesis using serial_mark ser st by blast
  next
    case (Write_Graph p app ns svc)
    then show ?thesis using serial_write ser st by blast
  next
    case (Recorded r loc)
    then show ?thesis using ser st by auto
  qed
qed

lemma serial_step_at:
  assumes ser: "serial_so_far K s0 js P"
  shows "\<exists>js'. serial_so_far K s0 js' (step_at (thread_step K) k P)"
proof (rule step_at_induct)
  show "\<exists>js'. serial_so_far K s0 js' P" using ser by blast
  show "\<exists>js'. serial_so_far K s0 js' (s', us @ t' # vs)"
    if P: "P = (s, us @ t # vs)" "thread_step K t s = (t', s')" for s us t vs t' s'
  proof (cases t)
    case (Recorder i pc)
    then show ?thesis using ser P serial_record_step [where us = us and vs = vs] by (auto split: prod.splits)
  next
    case (Handler as)
    then show ?thesis using ser P by (simp add: serial_so_far_def)
  qed
qed

lemma serial_run:
  "serial_so_far K s0 js P \<Longrightarrow> \<exists>js'. serial_so_far K s0 js' (run_schedule (thread_step K) ks P)"
proof (induction ks arbitrary: js P)
  case (Cons k ks)
  obtain js' where "serial_so_far K s0 js' (step_at (thread_step K) k P)" using serial_step_at [OF Cons.prems] by blast
  from Cons.IH [OF this] show ?case by simp
qed auto

lemma serial_start:
  assumes "\<not> poisoned (seen_edges s)" and "\<not> poisoned (topo s)"
  shows "serial_so_far K s [] (s, map (\<lambda>i. Recorder i Resolve_Source) is)"
proof -
  have "open_keys K s (map (\<lambda>i. Recorder i Resolve_Source) is) = []"
    and "saved_events (map (\<lambda>i. Recorder i Resolve_Source) is) = {#}" by (induction "is") simp_all
  then show ?thesis using assms by (auto simp: serial_so_far_def record_all_def)
qed

text \<open>The events that wrote nothing can be recorded last: by then their pair is seen.\<close>

fun unsaved :: "thread list \<Rightarrow> ebpf_network_event_input list" where
  "unsaved [] = []"
| "unsaved (Recorder i pc # ts) = (if saved (Recorder i pc) then unsaved ts else i # unsaved ts)"
| "unsaved (Handler as # ts) = unsaved ts"

lemma saved_unsaved: "mset (List.map_filter event_of ts) = saved_events ts + mset (unsaved ts)"
  by (induction ts rule: unsaved.induct) (auto simp: map_filter_simps)

lemma record_all_absorbed:
  "\<forall>i \<in> set is. absorbed K s i (set (inner (seen_edges s))) \<Longrightarrow> record_all K is s = s"
  by (induction "is") (simp_all add: record_all_def absorbed_noop)

lemma events_step: "List.map_filter event_of (snd (step_at (thread_step K) k P)) = List.map_filter event_of (snd P)"
proof (cases P)
  case (Pair s ts)
  have "event_of (fst (thread_step K t s)) = event_of t" for t
    by (cases "(K, t, s)" rule: thread_step.cases) (auto simp: case_prod_unfold Let_def)
  then have "map event_of (snd (step_at (thread_step K) k P)) = map event_of (snd P)"
    using Pair by (auto simp: step_at_def case_prod_unfold Let_def map_update intro: list_update_same_conv [THEN iffD2])
  moreover have "List.map_filter event_of ts = map the (filter (\<lambda>x. x \<noteq> None) (map event_of ts))" for ts
    by (induction ts) (auto simp: map_filter_simps split: option.split)
  ultimately show ?thesis by metis
qed

lemma events_run: "List.map_filter event_of (snd (run_schedule (thread_step K) ks P)) = List.map_filter event_of (snd P)"
  by (induction ks arbitrary: P) (simp_all add: events_step)

lemma pool_simulates_core:
  "core_reachable K to_json s \<Longrightarrow> \<exists>ts. pool_reachable K to_json (s, ts) \<and> (\<forall>t \<in> set ts. todo t = 0)"
proof (induction rule: core_reachable.induct)
  case start
  then show ?case using pool_reachable.start by fastforce
next
  case (step s s')
  then obtain ts where ts: "pool_reachable K to_json (s, ts)" "\<forall>t \<in> set ts. todo t = 0" by blast
  from step.hyps(2) show ?case
  proof (cases rule: core_step.cases)
    case (request now r)
    have "pool_reachable K to_json (s, ts @ [Handler (handler_actions to_json now r)])"
      using pool_reachable.step [OF ts(1) pool_step.arrive] by (simp add: receive_def del: handler_actions.simps)
    from pool_reachable_schedule [OF this, of "replicate (length (handler_actions to_json now r)) (length ts)"]
    have "pool_reachable K to_json (s', ts @ [Handler []])" by (simp add: solo_handler handler_actions_run request)
    then show ?thesis using ts(2) by (intro exI [of _ "ts @ [Handler []]"]) simp
  next
    case (record_event xs i ys)
    from pool_reachable.step [OF ts(1) pool_step.work [OF pool_work.start_recording [OF record_event(2)]]]
    have "pool_reachable K to_json (s\<lparr>spawned := xs @ ys\<rparr>, ts @ [Recorder i Resolve_Source])" .
    from pool_reachable_schedule [OF this, of "replicate 6 (length ts)"]
      solo_recorder [of K ts "s\<lparr>spawned := xs @ ys\<rparr>" i]
    obtain loc where "pool_reachable K to_json (s', ts @ [Recorder i
        (Recorded (fst (record_ebpf_event K i (s\<lparr>spawned := xs @ ys\<rparr>))) loc)])"
      unfolding record_event(1) by metis
    then show ?thesis using ts(2) by fastforce
  next
    case (persist xs e ys)
    then show ?thesis using pool_reachable.step [OF ts(1) pool_step.work [OF pool_work.start_persisting [OF persist(2)]]] ts(2) by blast
  qed
qed

lemma map_filter_map_event: "List.map_filter event_of (map (\<lambda>i. Recorder i pc) is) = is"
  by (induction "is") simp_all

lemma pc_finished: "pc_todo pc = 0 \<longleftrightarrow> (\<exists>r loc. pc = Recorded r loc)"
  by (cases pc) simp_all

lemma finished_absorbed:
  "\<forall>t \<in> set ts. thread_agrees K s A t \<and> todo t = 0 \<Longrightarrow> \<forall>i \<in> set (unsaved ts). absorbed K s i A"
  by (induction ts rule: unsaved.induct) (auto simp: pc_finished)

lemma finished_open_keys: "\<forall>t \<in> set ts. todo t = 0 \<Longrightarrow> open_keys K s ts = []"
  by (induction K s ts rule: open_keys.induct) (auto simp: pc_finished)

section \<open>A task looks up, then writes\<close>

text \<open>The accesses of a task to a destination that nobody knows: three lookups and, later, the
  service of the pod, the seen pairs and the graph.\<close>

lemma recorder_looks_up:
  assumes "source_found K s i p" and "destination_found K s i app ns"
    and "envoy_get (envoy_ops K) (envoy_cache s) (before_char (CHR '':'') (in_host i)) = None"
  shows "run_schedule (thread_step K) [length ts, length ts, length ts] (s, ts @ Recorder i Resolve_Source # us) =
    (s, ts @ Recorder i (Ask_Service p app ns) # us)"
  using assms
  by (auto simp: step_at_split source_found_def destination_found_def destination_of_def Let_def
      split: option.splits prod.splits)

lemma recorder_writes:
  fixes p :: pod_info and ns svc :: string
  assumes "\<not> poisoned (seen_edges s)" and "\<not> poisoned (topo s)"
    and "dst_service_of (pods_ops K) (pod_cache s) (dst_ip_str i) app = svc"
  defines "key \<equiv> edge_key (pod_namespace p) (pod_service_name p) ns svc"
  assumes "key \<notin> set (inner (seen_edges s))"
  shows "run_schedule (thread_step K) [length ts, length ts, length ts] (s, ts @ Recorder i (Ask_Service p app ns) # us) =
    (s\<lparr>seen_edges := lock_set (key # inner (seen_edges s)) (seen_edges s),
       topo := lock_set (record_call i (mk_node (pod_application_name p) (pod_namespace p)) (mk_node app ns)
         (inner (topo s))) (topo s)\<rparr>,
     ts @ Recorder i (Recorded (Inr ''saved event!'') (Some (p, app, ns, svc))) # us)"
  using assms by (simp add: step_at_split hs_insert_def List.insert_def)

lemma pod_handler_runs:
  assumes "pe_event_type r = 0" and "pe_application_name r \<noteq> []"
  shows "run_schedule (thread_step K) [Suc (length ts), Suc (length ts)]
      (s, ts @ [R, Handler (handler_actions to_json now (SendPodEvent r))]) =
    (record_pod_applied K (pe_pod_ip r) (pe_namespace r) (pe_application_name r) (pe_service_name r) (pe_service_type r) s,
     ts @ [R, Handler []])"
  using step_at_split [of "Suc (length ts)" "ts @ [R]" "thread_step K" _ _ "[]"] assms
  by (simp add: k8s_event_type_try_from_def pod_applied_actions_def record_pod_applied_def Let_def)

text \<open>A request from a known pod to an unknown one, and the announcement of the latter.\<close>

definition call_unknown :: ebpf_network_event_input where
  "call_unknown = call_a_b\<lparr>dst_ip := 0x0900000A, in_host := ''10.0.0.9:8080''\<rparr>"

definition pod_c_event :: pod_event_request where
  "pod_c_event = \<lparr>pe_pod_ip = ''10.0.0.9'', pe_namespace = ''default'', pe_event_type = 0,
     pe_application_name = ''svc-c'', pe_service_name = ''svc-c'', pe_service_type = ''ClusterIP''\<rparr>"

lemma call_unknown_addresses: "src_ip_str call_unknown = ''10.0.0.1''" "dst_ip_str call_unknown = ''10.0.0.9''"
  using call_a_b_addresses(1)
  by (simp_all add: call_unknown_def src_ip_str_def dst_ip_str_def u32_from_be_def octets_def u32_of_octets_def
      ipv4_to_string_def dotted_def nat_str.simps char_of_def bit_0)

lemma call_unknown_spawned:
  "core_reachable hash_caches to_json (two_pods\<lparr>spawned := [RecordEbpf call_unknown]\<rparr>)"
proof -
  let ?req = "\<lparr>rq_timestamp_ns = 1, rq_src_ip = 0x0100000A, rq_dst_ip = 0x0900000A, rq_src_port = 4000,
     rq_dst_port = 80, rq_method = ''GET'', rq_path = ''/api'', rq_host = ''10.0.0.9:8080''\<rparr>"
  have "snd (handle_rpc hash_caches to_json 0 (SendEbpfNetworkEvent ?req) two_pods) =
      two_pods\<lparr>spawned := [RecordEbpf call_unknown]\<rparr>"
    by (simp add: send_ebpf_network_event_def call_unknown_def call_a_b_def two_pods_def init_core_def)
  then show ?thesis using core_reachable.step [OF two_pods_reachable core_step.request] by metis
qed

lemma call_a_b_spawned: "core_reachable hash_caches to_json (two_pods\<lparr>spawned := [RecordEbpf call_a_b]\<rparr>)"
proof -
  let ?req = "\<lparr>rq_timestamp_ns = 1, rq_src_ip = 0x0100000A, rq_dst_ip = 0x0200000A, rq_src_port = 4000,
     rq_dst_port = 80, rq_method = ''GET'', rq_path = ''/api'', rq_host = ''whatever.example:80''\<rparr>"
  have "snd (handle_rpc hash_caches to_json 0 (SendEbpfNetworkEvent ?req) two_pods) =
      two_pods\<lparr>spawned := [RecordEbpf call_a_b]\<rparr>"
    by (simp add: send_ebpf_network_event_def call_a_b_def two_pods_def init_core_def)
  then show ?thesis using core_reachable.step [OF two_pods_reachable core_step.request] by metis
qed

section \<open>Properties\<close>

text \<open>C20. On a multi-threaded runtime, whatever requests arrive and however the accesses of handlers
  and recording tasks interleave: the graph is well formed, every caller has a name, every node is
  an endpoint of a flow, no recording task fails, and there are no more flows than tasks that
  answered \<open>saved event!\<close>. Deduplication is exact: the set of seen pairs is the set of the pairs of the tasks
  that recorded one or are about to write the graph, each pair belonging to exactly one of them,
  and a task that answered \<open>node already exists!\<close> has a pair of that set.\<close>

theorem concurrent_wellformed:
  assumes "pool_reachable K to_json (s, ts)"
  shows "topo_inv (inner (topo s)) \<and>
    (\<forall>f \<in> flow_set (inner (topo s)). application_name (source_node f) \<noteq> []) \<and>
    node_set (inner (topo s)) = source_node ` flow_set (inner (topo s)) \<union> destination_node ` flow_set (inner (topo s)) \<and>
    (\<forall>i r loc. Recorder i (Recorded r loc) \<in> set ts \<longrightarrow> (\<exists>msg. r = Inr msg)) \<and>
    card (flow_set (inner (topo s))) \<le> how_many saved ts \<and>
    set (inner (seen_edges s)) =
      {edge_key (pod_namespace p) (pod_service_name p) ns svc | p app ns svc i.
        Recorder i (Write_Graph p app ns svc) \<in> set ts \<or>
        Recorder i (Recorded (Inr ''saved event!'') (Some (p, app, ns, svc))) \<in> set ts} \<and>
    card (set (inner (seen_edges s))) = how_many saved ts + how_many writing ts \<and>
    (\<forall>i p app ns svc. Recorder i (Recorded (Inr ''node already exists!'') (Some (p, app, ns, svc))) \<in> set ts \<longrightarrow>
       edge_key (pod_namespace p) (pod_service_name p) ns svc \<in> set (inner (seen_edges s)))"
proof -
  have inv: "runtime_inv (s, ts)" using assms by (rule runtime_inv_reachable)
  then have seen: "set (inner (seen_edges s)) = set (marked_keys ts)" "distinct (marked_keys ts)"
    and ended: "\<forall>t \<in> set ts. ended_ok (set (inner (seen_edges s))) t"
    by (simp_all add: runtime_inv_def)
  have "card (set (inner (seen_edges s))) = how_many saved ts + how_many writing ts"
    using seen marked_saved_writing [OF ended] by (simp add: distinct_card)
  moreover have "edge_key (pod_namespace p) (pod_service_name p) ns svc \<in> set (inner (seen_edges s))"
    if "Recorder i (Recorded (Inr ''node already exists!'') (Some (p, app, ns, svc))) \<in> set ts" for i p app ns svc
    using ended that by fastforce
  ultimately show ?thesis
    using inv set_marked_keys [of ts] seen(1)
    by (fastforce simp: runtime_inv_def sources_named_def no_isolated_def)
qed

theorem concurrent_wellformed_witness:
  "\<exists>s ts. pool_reachable hash_caches (\<lambda>_. ''{}'') (s, ts) \<and>
     set (inner (seen_edges s)) = {''default/svc-a -> default/svc-b''} \<and> how_many saved ts + how_many writing ts = 1"
proof -
  let ?s = "two_pods\<lparr>spawned := [RecordEbpf call_a_b]\<rparr>"
  let ?s' = "snd (record_ebpf_event hash_caches call_a_b (?s\<lparr>spawned := [] @ []\<rparr>))"
  have "core_step hash_caches (\<lambda>_. ''{}'') ?s ?s'" by (rule core_step.record_event) simp
  with call_a_b_spawned have "core_reachable hash_caches (\<lambda>_. ''{}'') ?s'" by (rule core_reachable.step)
  then obtain ts where ts: "pool_reachable hash_caches (\<lambda>_. ''{}'') (?s', ts)" using pool_simulates_core by blast
  have "?s\<lparr>spawned := [] @ []\<rparr> = two_pods" by (simp add: two_pods_def init_core_def)
  then have "set (inner (seen_edges ?s')) = {''default/svc-a -> default/svc-b''}"
    by (simp only:) (simp add: record_state call_a_b_edge Let_def)
  then show ?thesis using ts concurrent_wellformed [OF ts] by (intro exI [of _ ?s'] exI [of _ ts]) simp
qed

text \<open>C35. Recording tasks are serialisable: however the accesses of a group of tasks interleave, when
  all have ended the graph and the set of seen pairs are those of recording the same events one
  after the other in some order, and nothing else has changed. Every such schedule ends: a task
  that is scheduled six times is done.\<close>

theorem recording_serialisable:
  assumes ok: "\<not> poisoned (seen_edges s)" "\<not> poisoned (topo s)"
    and run: "run_schedule (thread_step K) ks (s, map (\<lambda>i. Recorder i Resolve_Source) is) = (s', ts)"
    and fair: "\<forall>j < length is. 6 \<le> count_list ks j"
  shows "(\<forall>t \<in> set ts. todo t = 0) \<and>
    (\<exists>js. mset js = mset is \<and> inner (topo s') = inner (topo (record_all K js s)) \<and>
       set (inner (seen_edges s')) = set (inner (seen_edges (record_all K js s))) \<and>
       s'\<lparr>seen_edges := seen_edges s, topo := topo s\<rparr> = s)"
proof -
  let ?P = "(s, map (\<lambda>i. Recorder i Resolve_Source) is)"
  have len: "length ts = length is" using threads.length_run [of K ks ?P] run by simp
  have "todo (ts ! j) = 0" if "j < length is" for j
    using threads.scheduled_finishes [of j ?P ks K] fair that run by simp
  then have fin: "\<forall>t \<in> set ts. todo t = 0" using len by (metis in_set_conv_nth)
  obtain js where ser: "serial_so_far K s js (s', ts)" using serial_run [OF serial_start [OF ok], of K ks "is"] run by metis
  have no_open: "open_keys K s ts = []"
    using fin by (rule finished_open_keys)
  have "thread_agrees K s (set (inner (seen_edges s'))) t" if "t \<in> set ts" for t
    using ser that unfolding serial_so_far_def prod.case by blast
  then have "\<forall>i \<in> set (unsaved ts). absorbed K s i (set (inner (seen_edges s')))"
    using fin finished_absorbed by blast
  moreover have seen: "set (inner (seen_edges s')) = set (inner (seen_edges (record_all K js s)))"
    using ser no_open by (simp add: serial_so_far_def)
  ultimately have "record_all K (unsaved ts) (record_all K js s) = record_all K js s"
    by (intro record_all_absorbed) (simp add: absorbed_def key_of_def)
  then have all: "record_all K (js @ unsaved ts) s = record_all K js s" by (simp add: record_all_def)
  have "List.map_filter event_of ts = is"
    using events_run [of K ks ?P] run by (simp add: map_filter_map_event)
  then have "mset (js @ unsaved ts) = mset is"
    using saved_unsaved [of ts] ser by (simp add: serial_so_far_def)
  then show ?thesis using fin all seen ser by (intro conjI exI [of _ "js @ unsaved ts"]) (simp_all add: serial_so_far_def)
qed

theorem recording_serialisable_witness:
  "\<exists>js. mset js = {#call_a_b, call_a_b#} \<and>
     inner (topo (fst (run_schedule (thread_step hash_caches) (concat (replicate 6 [0, 1]))
       (two_pods, [Recorder call_a_b Resolve_Source, Recorder call_a_b Resolve_Source])))) =
     inner (topo (record_all hash_caches js two_pods))"
proof -
  let ?ks = "concat (replicate 6 [0, 1]) :: nat list"
  let ?P = "run_schedule (thread_step hash_caches) ?ks
    (two_pods, map (\<lambda>i. Recorder i Resolve_Source) [call_a_b, call_a_b])"
  have "\<forall>j < length [call_a_b, call_a_b]. 6 \<le> count_list ?ks j"
    by (simp add: numeral_eq_Suc less_Suc_eq)
  from recording_serialisable [where s' = "fst ?P" and ts = "snd ?P", OF _ _ _ this, of two_pods hash_caches]
  show ?thesis by (simp del: run_schedule_simps) blast
qed

text \<open>C4. A race between a recording task and the notification of its destination pod: a request to a
  pod not yet known is under way when the pod is announced. In one interleaving the task has looked
  the pod up before the announcement and writes the graph after it, so that in the end, with every
  thread finished, the pod is known and the graph still has its raw address. The next
  announcement of the pod, which the agent repeats, removes it.\<close>

theorem late_notification_race:
  assumes laws: "cache_laws (pods_ops K)" and "core_reachable K to_json s"
    and sp: "spawned s = xs @ RecordEbpf i # ys"
    and found: "source_found K s i p" "destination_found K s i (dst_ip_str i) ''unknown''"
    and unknown: "envoy_get (envoy_ops K) (envoy_cache s) (before_char (CHR '':'') (in_host i)) = None"
    and r: "pe_pod_ip r = dst_ip_str i" "pe_event_type r = 0" "pe_application_name r \<noteq> []"
      "pe_service_name r \<noteq> []" "pe_namespace r \<noteq> ''unknown''"
    and unseen: "edge_key (pod_namespace p) (pod_service_name p) ''unknown'' (pe_service_name r) \<notin> set (inner (seen_edges s))"
  shows "\<exists>s' ts. pool_reachable K to_json (s', ts) \<and> (\<forall>t \<in> set ts. todo t = 0) \<and>
    cache_get (pods_ops K) (pod_cache s') (dst_ip_str i) =
      Some \<lparr>pod_namespace = pe_namespace r, pod_application_name = pe_application_name r,
            pod_service_name = pe_service_name r, pod_service_type = pe_service_type r\<rparr> \<and>
    stale_id_of (dst_ip_str i) \<in> node_set (inner (topo s')) \<and>
    stale_id_of (dst_ip_str i) \<notin> node_set (inner (topo (snd (send_pod_event K r s'))))"
proof -
  obtain ts where ts: "pool_reachable K to_json (s, ts)" "\<forall>t \<in> set ts. todo t = 0"
    using pool_simulates_core [OF assms(2)] by blast
  have inv: "core_inv s" using assms(2) by (rule core_inv_reachable)
  let ?s1 = "s\<lparr>spawned := xs @ ys\<rparr>" and ?H = "Handler (handler_actions to_json 0 (SendPodEvent r))"
  let ?n = "length ts" and ?a = "dst_ip_str i" and ?src = "mk_node (pod_application_name p) (pod_namespace p)"
  define s2 where "s2 = record_pod_applied K ?a (pe_namespace r) (pe_application_name r) (pe_service_name r) (pe_service_type r) ?s1"
  have s2: "seen_edges s2 = seen_edges s" "\<not> poisoned (seen_edges s2)" "\<not> poisoned (topo s2)" "topo_inv (inner (topo s2))"
    "cache_get (pods_ops K) (pod_cache s2) ?a = Some \<lparr>pod_namespace = pe_namespace r, pod_application_name = pe_application_name r,
      pod_service_name = pe_service_name r, pod_service_type = pe_service_type r\<rparr>"
    using inv by (simp_all add: s2_def core_inv_def topo_pres get_record_pod_applied [OF laws])
  then have svc: "dst_service_of (pods_ops K) (pod_cache s2) ?a ?a = pe_service_name r" using r(4) by (simp add: dst_service_of_def)
  define s3 where "s3 = fst (run_schedule (thread_step K) [?n, ?n, ?n] (s2, ts @ [Recorder i (Ask_Service p ?a ''unknown''), Handler []]))"
  note writes = recorder_writes [where ns = "''unknown''", OF s2(2,3) svc, unfolded s2(1), OF unseen]
  have s3: "pod_cache s3 = pod_cache s2" "poisoned (topo s3) = poisoned (topo s2)"
    "inner (topo s3) = record_call i ?src (stale_id_of ?a) (inner (topo s2))"
    by (simp_all only: s3_def writes) (simp_all add: stale_id_of_def)
  have found1: "source_found K ?s1 i p" "destination_found K ?s1 i ?a ''unknown''"
    and unknown1: "envoy_get (envoy_ops K) (envoy_cache ?s1) (before_char (CHR '':'') (in_host i)) = None"
    using found unknown by (simp_all add: source_found_def destination_found_def)
  have "pool_reachable K to_json (?s1, ts @ [Recorder i Resolve_Source, ?H])"
    using pool_reachable.step [OF pool_reachable.step [OF ts(1) pool_step.work [OF pool_work.start_recording [OF sp]]]
        pool_step.arrive [where now = 0 and r = "SendPodEvent r"]]
    by (simp add: receive_def del: handler_actions.simps)
  from pool_reachable_schedule [OF this, of "[?n, ?n, ?n] @ [Suc ?n, Suc ?n] @ [?n, ?n, ?n]"]
  have "pool_reachable K to_json (s3, ts @ [Recorder i (Recorded (Inr ''saved event!'') (Some (p, ?a, ''unknown'', pe_service_name r))), Handler []])"
    by (simp only: run_schedule_simps(3) recorder_looks_up [OF found1 unknown1] pod_handler_runs [OF r(2,3)] r(1)
        s2_def [symmetric] writes s3_def fst_conv)
  moreover have "stale_id_of ?a \<in> node_set (inner (topo s3))" using s2(4) by (simp add: s3 record_call_graph)
  moreover have "stale_id_of ?a \<notin> node_set (inner (topo (snd (send_pod_event K r s3))))"
    using r s2(3) topo.heal_removes_node [of "pe_application_name r" "pe_namespace r" ?a]
    by (simp add: send_pod_event_def k8s_event_type_try_from_def topo_record_pod_applied s3 stale_id_of_def)
  ultimately show ?thesis using ts(2) s2(5)
    by (intro exI [of _ s3] exI [of _ "ts @ [Recorder i (Recorded (Inr ''saved event!'') (Some (p, ?a, ''unknown'', pe_service_name r))), Handler []]"]) (auto simp: s3)
qed

theorem late_notification_race_witness:
  "\<exists>s' ts. pool_reachable hash_caches (\<lambda>_. ''{}'') (s', ts) \<and> (\<forall>t \<in> set ts. todo t = 0) \<and>
    cache_get hash_cache (pod_cache s') ''10.0.0.9'' = Some \<lparr>pod_namespace = ''default'', pod_application_name = ''svc-c'',
      pod_service_name = ''svc-c'', pod_service_type = ''ClusterIP''\<rparr> \<and>
    stale_id_of ''10.0.0.9'' \<in> node_set (inner (topo s'))"
proof -
  let ?s = "two_pods\<lparr>spawned := [RecordEbpf call_unknown]\<rparr>"
  let ?p = "\<lparr>pod_namespace = ''default'', pod_application_name = ''svc-a'',
        pod_service_name = ''svc-a'', pod_service_type = ''ClusterIP''\<rparr>"
  have h: "before_char (CHR '':'') (in_host call_unknown) = ''10.0.0.9''" by code_simp
  have "\<not> str_contains (in_path call_unknown) ''/health''" by code_simp
  then have f1: "source_found hash_caches ?s call_unknown ?p"
    by (simp add: source_found_def call_unknown_addresses source_of_def two_pods_def)
  have f2: "destination_found hash_caches ?s call_unknown (dst_ip_str call_unknown) ''unknown''"
    using parse_ip_host [of "u32_from_be (dst_ip call_unknown)"] call_unknown_addresses(2)
    by (simp add: destination_found_def h destination_of_def call_unknown_addresses two_pods_def init_core_def
        envoy_get_def envoy_new_def dst_ip_str_def)
  show ?thesis
    using late_notification_race [OF _ call_unknown_spawned _ f1 f2, of "[]" "[]" pod_c_event "\<lambda>_. ''{}''"]
    by (simp add: hash_cache_laws h pod_c_event_def call_unknown_addresses two_pods_def init_core_def
        envoy_get_def envoy_new_def) blast
qed

end
