(* ===== verification/Qubit_System.thy ===== *)
theory Qubit_System
  imports Agent_Wiring Interleaving Capture
begin

text \<open>
  The parts as one system: the cluster agent, the packet filters with their loaders, the requests
  under way and Core on its multi-threaded runtime. Every request is sent by a task of its own, so
  requests overtake each other; a request that fails is logged and not sent again; Core and the
  agent may be restarted at any time, Core with nothing but empty memory. The theory shows what holds of
  Core however these interleave, that the periodic snapshot repairs every such history for the
  addresses it covers, and which outdated attribution no snapshot repairs.
\<close>

section \<open>The system\<close>

text \<open>\<open>sy_sent\<close> is the history of the requests of all agents so far.\<close>

record ('p, 's, 'e) system =
  sy_run :: agent_run
  sy_sent :: "rpc list"
  sy_flight :: "rpc multiset"
  sy_pool :: "('p, 's, 'e) pool"

definition start_system :: "'y yaml_ops \<Rightarrow> cluster_agent_config \<Rightarrow> ('p, 's, 'e) core_caches \<Rightarrow> api_lists
    \<Rightarrow> ('p, 's, 'e) system" where
  "start_system Y cfg K l =
     (let r = start_run Y cfg l; out = outbox (ru_agent r) in
      \<lparr>sy_run = r, sy_sent = out, sy_flight = mset out, sy_pool = (init_core K, [])\<rparr>)"

text \<open>A packet that the filter reports and the loader turns into a request.\<close>

definition captured_request :: "u64 \<Rightarrow> skb \<Rightarrow> ebpf_network_event_request list" where
  "captured_request now ctx = List.map_filter (\<lambda>ev. handle_tcp_event (event_bytes ev)) (snd (http_filter now ctx))"

inductive system_step :: "'y yaml_ops \<Rightarrow> cluster_agent_config \<Rightarrow> ('p, 's, 'e) core_caches
    \<Rightarrow> ((string, string) hash_map \<Rightarrow> string) \<Rightarrow> ('p, 's, 'e) system \<Rightarrow> ('p, 's, 'e) system \<Rightarrow> bool"
  for Y :: "'y yaml_ops" and cfg :: cluster_agent_config and K :: "('p, 's, 'e) core_caches" and to_json where
  agent_works: "agent_step Y cfg e (sy_run y) r' \<Longrightarrow> outbox (ru_agent r') = outbox (ru_agent (sy_run y)) @ out \<Longrightarrow>
    system_step Y cfg K to_json y (y\<lparr>sy_run := r', sy_sent := sy_sent y @ out, sy_flight := sy_flight y + mset out\<rparr>)"
| agent_restarts: "r' = start_run Y cfg l \<Longrightarrow> out = outbox (ru_agent r') \<Longrightarrow>
    system_step Y cfg K to_json y (y\<lparr>sy_run := r', sy_sent := sy_sent y @ out, sy_flight := sy_flight y + mset out\<rparr>)"
| packet: "system_step Y cfg K to_json y
    (y\<lparr>sy_flight := sy_flight y + mset (map SendEbpfNetworkEvent (captured_request now ctx))\<rparr>)"
| delivered: "r \<in># sy_flight y \<Longrightarrow>
    system_step Y cfg K to_json y (y\<lparr>sy_flight := sy_flight y - {#r#}, sy_pool := receive to_json now r (sy_pool y)\<rparr>)"
| lost: "r \<in># sy_flight y \<Longrightarrow> system_step Y cfg K to_json y (y\<lparr>sy_flight := sy_flight y - {#r#}\<rparr>)"
| core_works: "pool_work K (sy_pool y) P' \<Longrightarrow> system_step Y cfg K to_json y (y\<lparr>sy_pool := P'\<rparr>)"
| core_restarts: "system_step Y cfg K to_json y (y\<lparr>sy_pool := (init_core K, [])\<rparr>)"

inductive system_steps :: "'y yaml_ops \<Rightarrow> cluster_agent_config \<Rightarrow> ('p, 's, 'e) core_caches
    \<Rightarrow> ((string, string) hash_map \<Rightarrow> string) \<Rightarrow> ('p, 's, 'e) system \<Rightarrow> ('p, 's, 'e) system \<Rightarrow> bool"
  for Y :: "'y yaml_ops" and cfg :: cluster_agent_config and K :: "('p, 's, 'e) core_caches" and to_json where
  stay: "system_steps Y cfg K to_json y y"
| more: "system_steps Y cfg K to_json y y' \<Longrightarrow> system_step Y cfg K to_json y' y'' \<Longrightarrow> system_steps Y cfg K to_json y y''"

definition system_reachable :: "'y yaml_ops \<Rightarrow> cluster_agent_config \<Rightarrow> ('p, 's, 'e) core_caches
    \<Rightarrow> ((string, string) hash_map \<Rightarrow> string) \<Rightarrow> ('p, 's, 'e) system \<Rightarrow> bool" where
  "system_reachable Y cfg K to_json y \<longleftrightarrow> (\<exists>l. system_steps Y cfg K to_json (start_system Y cfg K l) y)"

section \<open>What the agents have announced\<close>

text \<open>The addresses a request announces, with the pod behind each.\<close>

fun announced :: "rpc \<Rightarrow> (string \<times> pod_info) list" where
  "announced (SendPodEvent r) =
     (if k8s_event_type_try_from (pe_event_type r) = Some Applied
      then [(pe_pod_ip r, \<lparr>pod_namespace = pe_namespace r, pod_application_name = pe_application_name r,
               pod_service_name = pe_service_name r, pod_service_type = pe_service_type r\<rparr>)]
      else [])"
| "announced (SendServicePodMap es) =
     concat (map (\<lambda>e. map (\<lambda>a. (a, \<lparr>pod_namespace = sp_namespace e, pod_application_name = sp_application_name e,
       pod_service_name = sp_service_name e, pod_service_type = sp_service_type e\<rparr>)) (sp_pod_ips e)) es)"
| "announced _ = []"

definition announced_by :: "rpc list \<Rightarrow> (string \<times> pod_info) set" where
  "announced_by rs = (\<Union>r \<in> set rs. set (announced r))"

text \<open>Everything in Core about pods stems from the announcements \<open>A\<close>.\<close>

definition node_from :: "(string \<times> pod_info) set \<Rightarrow> node_id \<Rightarrow> bool" where
  "node_from A n \<longleftrightarrow> (\<exists>a p. (a, p) \<in> A \<and> n = mk_node (pod_application_name p) (pod_namespace p))"

fun pc_source :: "record_pc \<Rightarrow> pod_info option" where
  "pc_source (Ask_Envoy p) = Some p"
| "pc_source (Ask_Pods p) = Some p"
| "pc_source (Ask_Service p _ _) = Some p"
| "pc_source (Mark_Seen p _ _ _) = Some p"
| "pc_source (Write_Graph p _ _ _) = Some p"
| "pc_source _ = None"

fun action_from :: "(string \<times> pod_info) set \<Rightarrow> action \<Rightarrow> bool" where
  "action_from A (Insert_Pod a p) = ((a, p) \<in> A)"
| "action_from A (Heal_Pod a app ns) = node_from A (mk_node app ns)"
| "action_from A _ = True"

fun thread_from :: "(string \<times> pod_info) set \<Rightarrow> thread \<Rightarrow> bool" where
  "thread_from A (Recorder i pc) = (\<forall>p. pc_source pc = Some p \<longrightarrow> (src_ip_str i, p) \<in> A)"
| "thread_from A (Handler as) = (\<forall>a \<in> set as. action_from A a)"

definition pool_from :: "('p, 's, 'e) core_caches \<Rightarrow> (string \<times> pod_info) set \<Rightarrow> ('p, 's, 'e) pool \<Rightarrow> bool" where
  "pool_from K A = (\<lambda>(s, ts). topo_inv (inner (topo s)) \<and>
     (\<forall>a p. cache_get (pods_ops K) (pod_cache s) a = Some p \<longrightarrow> (a, p) \<in> A) \<and>
     (\<forall>f \<in> flow_set (inner (topo s)). node_from A (source_node f)) \<and>
     (\<forall>t \<in> set ts. thread_from A t))"

lemma node_fromI: "(a, p) \<in> A \<Longrightarrow> node_from A (mk_node (pod_application_name p) (pod_namespace p))"
  by (auto simp: node_from_def)

lemma node_from_mono: "node_from A n \<Longrightarrow> A \<subseteq> B \<Longrightarrow> node_from B n"
  by (auto simp: node_from_def)

lemma thread_from_mono:
  assumes "thread_from A t" and "A \<subseteq> B"
  shows "thread_from B t"
proof (cases t)
  case (Handler as)
  have "action_from A a \<Longrightarrow> action_from B a" for a
    using assms(2) by (cases a) (auto intro: node_from_mono)
  then show ?thesis using assms Handler by auto
qed (use assms in auto)

lemma pool_from_mono: "pool_from K A P \<Longrightarrow> A \<subseteq> B \<Longrightarrow> pool_from K B P"
  by (fastforce simp: pool_from_def intro: node_from_mono thread_from_mono)

lemma pod_applied_from:
  "(a, \<lparr>pod_namespace = ns, pod_application_name = app, pod_service_name = svc, pod_service_type = ty\<rparr>) \<in> A \<Longrightarrow>
   x \<in> set (pod_applied_actions a ns app svc ty) \<Longrightarrow> action_from A x"
  by (fastforce simp: pod_applied_actions_def node_from_def split: if_splits)

lemma handler_from:
  assumes "set (announced r) \<subseteq> A"
  shows "thread_from A (Handler (handler_actions to_json now r))"
proof (cases r)
  case (SendPodEvent q)
  show ?thesis
  proof (cases "k8s_event_type_try_from (pe_event_type q)")
    case (Some ty)
    then show ?thesis using assms SendPodEvent by (cases ty) (auto intro: pod_applied_from)
  qed (use SendPodEvent in simp)
next
  case (SendServicePodMap es)
  then show ?thesis using assms by (fastforce intro: pod_applied_from)
qed (auto simp: Let_def split: option.split k8s_event_type.split)

lemma pool_from_receive:
  "pool_from K A P \<Longrightarrow> set (announced r) \<subseteq> A \<Longrightarrow> pool_from K A (receive to_json now r P)"
  using handler_from [of r A to_json now] by (cases P) (auto simp: pool_from_def receive_def simp del: thread_from.simps)

lemma pool_from_recorder:
  assumes "pool_from K A (s, us @ Recorder i pc # vs)" and "record_step K i pc s = (pc', s')"
  shows "pool_from K A (s', us @ Recorder i pc' # vs)"
proof (cases pc)
  case (Write_Graph p app ns svc)
  then show ?thesis
    using assms node_fromI [of "src_ip_str i" p A] by (auto simp: pool_from_def record_call_graph split: if_splits)
next
  case Resolve_Source
  then show ?thesis
    using assms by (auto simp: pool_from_def source_of_def split: if_splits option.splits)
qed (use assms in \<open>auto simp: pool_from_def Let_def split: if_splits option.splits prod.splits\<close>)

lemma pool_from_handler:
  assumes laws: "cache_laws (pods_ops K)" and "pool_from K A (s, us @ Handler (a # as) # vs)"
  shows "pool_from K A (run_action K a s, us @ Handler as # vs)"
proof (cases a)
  case (Heal_Pod b app ns)
  let ?t = "inner (topo s)"
  have "node_from A (source_node f)"
    if "f \<in> flow_set (resolve_unknown_node b app ns ?t)" for f
  proof (cases "stale_id_of b \<in> node_set ?t")
    case True
    then show ?thesis using that assms(2) Heal_Pod
      by (auto simp: pool_from_def topo.flows_heal rename_flow_def rename_node_def)
  qed (use that assms(2) in \<open>auto simp: pool_from_def resolve_noop\<close>)
  then show ?thesis using assms(2) Heal_Pod by (auto simp: pool_from_def topo.inv_heal)
next
  case (Attach_Event n e)
  then show ?thesis using assms(2) by (auto simp: pool_from_def topo.inv_put_event)
qed (use assms in \<open>auto simp: pool_from_def cache_get_insert cache_get_remove split: if_splits\<close>)

lemma pool_from_step_at:
  assumes "cache_laws (pods_ops K)" and "pool_from K A P"
  shows "pool_from K A (step_at (thread_step K) k P)"
proof (rule step_at_induct)
  show "pool_from K A P" by fact
  show "pool_from K A (s', us @ t' # vs)" if "P = (s, us @ t # vs)" "thread_step K t s = (t', s')" for s us t vs t' s'
    using that assms pool_from_recorder [where us = us and vs = vs] pool_from_handler [where us = us and vs = vs]
    by (cases "(K, t, s)" rule: thread_step.cases) (auto split: prod.splits simp del: thread_from.simps)
qed

lemma pool_from_work:
  assumes "cache_laws (pods_ops K)" and "pool_work K P P'" and "pool_from K A P"
  shows "pool_from K A P'"
  using assms(2,3)
  by (induction rule: pool_work.induct) (simp_all add: pool_from_step_at [OF assms(1)], simp_all add: pool_from_def)

lemma pool_from_init: "cache_laws (pods_ops K) \<Longrightarrow> pool_from K A (init_core K, [])"
  by (simp add: pool_from_def init_core_def cache_get_new topo_inv_new)

section \<open>Reachable systems\<close>

definition system_ok :: "('p, 's, 'e) core_caches \<Rightarrow> ('p, 's, 'e) system \<Rightarrow> bool" where
  "system_ok K y \<longleftrightarrow> runtime_inv (sy_pool y) \<and> pool_from K (announced_by (sy_sent y)) (sy_pool y) \<and>
     (\<forall>r \<in># sy_flight y. set (announced r) \<subseteq> announced_by (sy_sent y))"

lemma announced_by_append [simp]: "announced_by (rs @ rs') = announced_by rs \<union> announced_by rs'"
  by (simp add: announced_by_def)

lemma announced_by_member: "r \<in> set rs \<Longrightarrow> set (announced r) \<subseteq> announced_by rs"
  by (auto simp: announced_by_def)

lemma system_ok_sends:
  "system_ok K y \<Longrightarrow> system_ok K (y\<lparr>sy_run := r, sy_sent := sy_sent y @ out, sy_flight := sy_flight y + mset out\<rparr>)"
  using announced_by_member [of _ out] by (auto simp: system_ok_def intro: pool_from_mono)

lemma system_ok_step:
  assumes laws: "cache_laws (pods_ops K)" and "system_step Y cfg K to_json y y'" and ok: "system_ok K y"
  shows "system_ok K y'"
  using assms(2)
proof (cases rule: system_step.cases)
  case (agent_works e r' out)
  then show ?thesis using system_ok_sends [OF ok] by simp
next
  case (agent_restarts r' l out)
  then show ?thesis using system_ok_sends [OF ok] by simp
next
  case (delivered r now)
  then show ?thesis
    using ok by (auto simp: system_ok_def runtime_inv_receive pool_from_receive dest: in_diffD)
next
  case (core_works P')
  then show ?thesis using ok laws by (auto simp: system_ok_def intro: runtime_inv_work pool_from_work)
next
  case core_restarts
  then show ?thesis
    using ok laws by (auto simp: system_ok_def pool_from_init runtime_inv_init)
qed (use ok in \<open>auto simp: system_ok_def dest: in_diffD\<close>)

lemma system_ok_start: "cache_laws (pods_ops K) \<Longrightarrow> system_ok K (start_system Y cfg K l)"
  using announced_by_member by (auto simp: system_ok_def start_system_def Let_def runtime_inv_init pool_from_init)

lemma system_ok_steps:
  "system_steps Y cfg K to_json y y' \<Longrightarrow> cache_laws (pods_ops K) \<Longrightarrow> system_ok K y \<Longrightarrow> system_ok K y'"
  by (induction rule: system_steps.induct) (auto intro: system_ok_step)

lemma system_ok_reachable: "cache_laws (pods_ops K) \<Longrightarrow> system_reachable Y cfg K to_json y \<Longrightarrow> system_ok K y"
  by (auto simp: system_reachable_def intro: system_ok_steps system_ok_start)

lemma core_inv_reachable_system:
  "cache_laws (pods_ops K) \<Longrightarrow> system_reachable Y cfg K to_json y \<Longrightarrow> core_inv (fst (sy_pool y))"
  using system_ok_reachable [of K Y cfg to_json y] runtime_inv_flows [of "fst (sy_pool y)" "snd (sy_pool y)"]
  by (cases "sy_pool y") (simp add: system_ok_def runtime_inv_def core_inv_def)

lemma steps_trans:
  "system_steps Y cfg K to_json y' y'' \<Longrightarrow> system_steps Y cfg K to_json y y' \<Longrightarrow> system_steps Y cfg K to_json y y''"
  by (induction rule: system_steps.induct) (auto intro: system_steps.more)

lemma reachable_steps:
  "system_reachable Y cfg K to_json y \<Longrightarrow> system_steps Y cfg K to_json y y' \<Longrightarrow> system_reachable Y cfg K to_json y'"
  by (auto simp: system_reachable_def intro: steps_trans)

lemma one_step: "system_step Y cfg K to_json y y' \<Longrightarrow> system_steps Y cfg K to_json y y'"
  by (rule system_steps.more [OF system_steps.stay])

section \<open>A handler among other threads\<close>

text \<open>Threads that leave the pod cache alone: all recording tasks and the handlers of other requests.\<close>

fun pod_quiet :: "thread \<Rightarrow> bool" where
  "pod_quiet (Recorder i pc) = True"
| "pod_quiet (Handler as) = list_all (\<lambda>a. case a of Insert_Pod _ _ \<Rightarrow> False | Remove_Pod _ \<Rightarrow> False | _ \<Rightarrow> True) as"

lemma quiet_step:
  assumes "pod_quiet t" and "thread_step K t s = (t', s')"
  shows "pod_quiet t' \<and> pod_cache s' = pod_cache s"
proof (cases "(K, t, s)" rule: thread_step.cases)
  case (1 K' i pc s0)
  have "pod_cache (snd (record_step K i pc s)) = pod_cache s"
    by (cases pc) (auto simp: case_prod_unfold Let_def split: option.splits)
  then show ?thesis using 1 assms by (auto split: prod.splits)
next
  case (3 K' a as s0)
  then show ?thesis using assms by (cases a) auto
qed (use assms in auto)

text \<open>The pod cache is that of the handler alone, as far as it has come.\<close>

definition alone :: "('p, 's, 'e) core_caches \<Rightarrow> ('p, 's, 'e) core_state \<Rightarrow> action list \<Rightarrow> nat \<Rightarrow> ('p, 's, 'e) pool \<Rightarrow> bool" where
  "alone K s0 as j = (\<lambda>(s, ts). \<exists>n. j < length ts \<and> ts ! j = Handler (drop n as) \<and>
     (\<forall>k < length ts. k \<noteq> j \<longrightarrow> pod_quiet (ts ! k)) \<and> pod_cache s = pod_cache (fold (run_action K) (take n as) s0))"

lemma pod_cache_action: "pod_cache s = pod_cache s' \<Longrightarrow> pod_cache (run_action K a s) = pod_cache (run_action K a s')"
  by (cases a) simp_all

lemma alone_step_at:
  assumes "alone K s0 as j P"
  shows "alone K s0 as j (step_at (thread_step K) k P)"
proof -
  obtain s ts n where P: "P = (s, ts)" "j < length ts" "ts ! j = Handler (drop n as)"
      "\<forall>k < length ts. k \<noteq> j \<longrightarrow> pod_quiet (ts ! k)" "pod_cache s = pod_cache (fold (run_action K) (take n as) s0)"
    using assms by (cases P) (auto simp: alone_def)
  obtain t' s' where st: "thread_step K (ts ! k) s = (t', s')" by fastforce
  consider "k \<ge> length ts" | "k < length ts" "k \<noteq> j" | "k = j" "n < length as" | "k = j" "length as \<le> n" by linarith
  then show ?thesis
  proof cases
    case 2
    then have "pod_quiet t' \<and> pod_cache s' = pod_cache s" using quiet_step [OF _ st] P(4) by blast
    then show ?thesis using P st 2 by (auto simp: alone_def step_at_def nth_list_update intro!: exI [of _ n])
  next
    case 3
    then have "t' = Handler (drop (Suc n) as)" "s' = run_action K (as ! n) s"
      using st P(3) by (simp_all add: Cons_nth_drop_Suc [symmetric])
    then show ?thesis
      using P st 3 pod_cache_action [OF P(5), of K "as ! n"]
      by (auto simp: alone_def step_at_def nth_list_update take_Suc_conv_app_nth intro!: exI [of _ "Suc n"])
  next
    case 4
    then have "step_at (thread_step K) k P = P" using P(1-3) list_update_id [of ts j] by (simp add: step_at_def)
    then show ?thesis using assms by simp
  qed (use assms P(1) in \<open>simp add: step_at_def\<close>)
qed

lemma alone_work: "pool_work K P P' \<Longrightarrow> alone K s0 as j P \<Longrightarrow> alone K s0 as j P'"
proof (induction rule: pool_work.induct)
  case (advance P k)
  then show ?case by (rule alone_step_at)
qed (fastforce simp: alone_def nth_append less_Suc_eq)+

lemma alone_works: "(pool_work K)\<^sup>*\<^sup>* P P' \<Longrightarrow> alone K s0 as j P \<Longrightarrow> alone K s0 as j P'"
  by (induction rule: rtranclp_induct) (auto intro: alone_work)

lemma alone_receive:
  assumes "\<forall>t \<in> set (snd P). pod_quiet t"
  shows "alone K (fst P) (handler_actions to_json now r) (length (snd P)) (receive to_json now r P)"
  using assms by (cases P) (auto simp: alone_def receive_def nth_append less_Suc_eq simp del: handler_actions.simps
      intro!: exI [of _ 0])

lemma alone_finished:
  assumes "alone K s0 as j P" and "snd P ! j = Handler []"
  shows "pod_cache (fst P) = pod_cache (fold (run_action K) as s0)"
proof -
  obtain n where "pod_cache (fst P) = pod_cache (fold (run_action K) (take n as) s0)" "drop n as = []"
    using assms by (cases P) (auto simp: alone_def)
  then show ?thesis by simp
qed

section \<open>Runs of the system\<close>

lemma core_schedule:
  "system_steps Y cfg K to_json y (y\<lparr>sy_pool := run_schedule (thread_step K) ks (sy_pool y)\<rparr>)"
proof (induction ks rule: rev_induct)
  case Nil
  then show ?case using system_steps.stay [of Y cfg K to_json y] by simp
next
  case (snoc k ks)
  let ?y = "y\<lparr>sy_pool := run_schedule (thread_step K) ks (sy_pool y)\<rparr>"
  have "system_step Y cfg K to_json ?y (?y\<lparr>sy_pool := step_at (thread_step K) k (sy_pool ?y)\<rparr>)"
    by (rule core_works) (rule pool_work.advance)
  with snoc show ?case by (force intro: system_steps.more)
qed

text \<open>A request under way may be delivered and handled in one piece.\<close>

definition handled :: "((string, string) hash_map \<Rightarrow> string) \<Rightarrow> ('p, 's, 'e) core_caches \<Rightarrow> rpc \<Rightarrow> ('p, 's, 'e) system
    \<Rightarrow> ('p, 's, 'e) system" where
  "handled to_json K r y = y\<lparr>sy_flight := sy_flight y - {#r#},
     sy_pool := (snd (handle_rpc K to_json 0 r (fst (sy_pool y))), snd (sy_pool y) @ [Handler []])\<rparr>"

lemma handled_steps:
  assumes "r \<in># sy_flight y"
  shows "system_steps Y cfg K to_json y (handled to_json K r y)"
proof -
  obtain s ts where P: "sy_pool y = (s, ts)" by (cases "sy_pool y")
  let ?as = "handler_actions to_json 0 r"
  let ?y = "y\<lparr>sy_flight := sy_flight y - {#r#}, sy_pool := receive to_json 0 r (sy_pool y)\<rparr>"
  have "system_steps Y cfg K to_json y ?y" using assms by (intro one_step delivered)
  moreover have "handled to_json K r y = ?y\<lparr>sy_pool := run_schedule (thread_step K) (replicate (length ?as) (length ts)) (sy_pool ?y)\<rparr>"
    by (simp add: handled_def P receive_def solo_handler handler_actions_run)
  ultimately show ?thesis using core_schedule steps_trans by metis
qed

lemma handled_sel [simp]:
  "fst (sy_pool (handled to_json K r y)) = snd (handle_rpc K to_json 0 r (fst (sy_pool y)))"
  "sy_flight (handled to_json K r y) = sy_flight y - {#r#}"
  "sy_sent (handled to_json K r y) = sy_sent y" "sy_run (handled to_json K r y) = sy_run y"
  by (simp_all add: handled_def)

text \<open>A captured request under way may be delivered, and its task run, in one piece.\<close>

definition input_of :: "ebpf_network_event_request \<Rightarrow> ebpf_network_event_input" where
  "input_of q = \<lparr>in_timestamp_ns = rq_timestamp_ns q, src_ip = rq_src_ip q, dst_ip = rq_dst_ip q,
     in_src_port = ucast (rq_src_port q), in_dst_port = ucast (rq_dst_port q),
     in_method = rq_method q, in_path = rq_path q, in_host = rq_host q\<rparr>"

lemma send_spawns: "snd (send_ebpf_network_event q s) = s\<lparr>spawned := spawned s @ [RecordEbpf (input_of q)]\<rparr>"
  by (simp add: send_ebpf_network_event_def input_of_def Let_def)

lemma recorded_steps:
  assumes "SendEbpfNetworkEvent q \<in># sy_flight y"
  shows "\<exists>y'. system_steps Y cfg K to_json y y' \<and>
    fst (sy_pool y') = snd (record_ebpf_event K (input_of q) (fst (sy_pool y)))"
proof -
  let ?y1 = "handled to_json K (SendEbpfNetworkEvent q) y"
  obtain s ts where P: "sy_pool y = (s, ts)" by (cases "sy_pool y")
  let ?ts = "ts @ [Handler []]" and ?i = "input_of q"
  have P1: "sy_pool ?y1 = (s\<lparr>spawned := spawned s @ RecordEbpf ?i # []\<rparr>, ?ts)" by (simp add: handled_def P send_spawns)
  let ?y2 = "?y1\<lparr>sy_pool := (s, ?ts @ [Recorder ?i Resolve_Source])\<rparr>"
  have "pool_work K (sy_pool ?y1) (s, ?ts @ [Recorder ?i Resolve_Source])"
    unfolding P1 using pool_work.start_recording [of "s\<lparr>spawned := spawned s @ RecordEbpf ?i # []\<rparr>" "spawned s" ?i "[]" K ?ts] by simp
  then have "system_steps Y cfg K to_json ?y1 ?y2" by (intro one_step core_works)
  moreover have "system_steps Y cfg K to_json ?y2 (?y2\<lparr>sy_pool := run_schedule (thread_step K) (replicate 6 (length ?ts)) (sy_pool ?y2)\<rparr>)"
    by (rule core_schedule)
  ultimately show ?thesis
    using handled_steps [OF assms, of Y cfg K to_json] solo_recorder [of K ?ts s ?i] P
    by (intro exI [of _ "?y2\<lparr>sy_pool := run_schedule (thread_step K) (replicate 6 (length ?ts)) (sy_pool ?y2)\<rparr>"])
      (auto intro: steps_trans)
qed

lemma captured_packet:
  fixes now :: u64 and pkt :: "u8 list"
  assumes "skb_laws ctx pkt" and "http_segment pkt"
  defines "e \<equiv> read_event (event_bytes (captured now pkt))"
  assumes "parse_method e = Some m" and "m \<noteq> []"
  shows "\<exists>q. captured_request now ctx = [q] \<and>
    src_ip_str (input_of q) = dotted (unat (pkt ! 26), unat (pkt ! 27), unat (pkt ! 28), unat (pkt ! 29)) \<and>
    dst_ip_str (input_of q) = dotted (unat (pkt ! 30), unat (pkt ! 31), unat (pkt ! 32), unat (pkt ! 33)) \<and>
    in_method (input_of q) = m \<and> in_path (input_of q) = unwrap_or_default (parse_path e) \<and>
    in_host (input_of q) = unwrap_or_default (parse_host e)"
proof -
  have f: "http_filter now ctx = (0, [captured now pkt])" using http_filter_packet [OF assms(1), of now] assms(2) by simp
  from packet_reaches_core [OF assms(1) this assms(4,5) [unfolded e_def], of "init_core hash_caches"]
  show ?thesis by (auto simp: captured_request_def f send_spawns e_def)
qed

text \<open>One item of the pod watcher.\<close>

definition watched_pod :: "pod_obj watch_event \<Rightarrow> ('p, 's, 'e) system \<Rightarrow> ('p, 's, 'e) system" where
  "watched_pod ev y =
     (let a = ru_agent (sy_run y); a' = dispatch pod_handler ev a; out = drop (length (outbox a)) (outbox a') in
      y\<lparr>sy_run := (sy_run y)\<lparr>ru_agent := a'\<rparr>, sy_sent := sy_sent y @ out, sy_flight := sy_flight y + mset out\<rparr>)"

lemma watched_pod_steps:
  assumes "\<not> ru_returned (sy_run y)" and "InfPod \<in> set (ru_tasks (sy_run y))"
  shows "system_steps Y cfg K to_json y (watched_pod ev y)"
proof -
  let ?i = "create_pod_informer cfg" and ?r = "sy_run y"
  let ?r' = "?r\<lparr>ru_agent := inf_handle ?i (PodItem ev) (ru_agent ?r)\<rparr>"
  have i: "?i \<in> set (informers (create_informers Y cfg))" by (simp add: informers_def create_informers_def)
  have ty: "inf_type ?i = InfPod" and h: "inf_handle ?i (PodItem ev) = dispatch pod_handler ev"
    by (simp_all add: create_pod_informer_def informer_generic_def handle_with_def [abs_def])
  have st: "agent_step Y cfg (Watched (inf_type ?i) (PodItem ev)) ?r ?r'"
    using i assms by (intro watched) (simp_all add: ty)
  obtain out where out: "outbox (ru_agent ?r') = outbox (ru_agent ?r) @ out" using step_grows [OF st] by blast
  have "watched_pod ev y = y\<lparr>sy_run := ?r', sy_sent := sy_sent y @ out, sy_flight := sy_flight y + mset out\<rparr>"
    using out by (simp add: watched_pod_def Let_def h)
  then show ?thesis using one_step [OF agent_works [OF st out]] by simp
qed

text \<open>One turn of the resync task, and the arrival of its snapshot at Core.\<close>

definition resynced_system :: "'y yaml_ops \<Rightarrow> api_lists \<Rightarrow> ((string, string) hash_map \<Rightarrow> string) \<Rightarrow> rpc
    \<Rightarrow> ('p, 's, 'e) system \<Rightarrow> ('p, 's, 'e) system" where
  "resynced_system Y l to_json snapshot y =
     (let a = ru_agent (sy_run y); a' = resync Y l a; out = drop (length (outbox a)) (outbox a') in
      y\<lparr>sy_run := (sy_run y)\<lparr>ru_agent := a'\<rparr>, sy_sent := sy_sent y @ out,
        sy_flight := sy_flight y + mset out - {#snapshot#}, sy_pool := receive to_json 0 snapshot (sy_pool y)\<rparr>)"

lemma resync_sends:
  assumes "al_services l = Inr services" and "al_pods l = Inr pods"
  shows "send_initial_pod_service_map services pods \<in> set (drop (length (outbox a)) (outbox (resync Y l a)))"
  using assms
  by (simp add: resync_def sync_pod_map_def sync_envoy_routes_def spawn_send_def split: sum.split option.split)

lemma resynced_steps:
  assumes "\<not> ru_returned (sy_run y)" and "al_services l = Inr services" and "al_pods l = Inr pods"
  shows "system_steps Y cfg K to_json y (resynced_system Y l to_json (send_initial_pod_service_map services pods) y)"
proof -
  let ?r = "sy_run y" and ?snap = "send_initial_pod_service_map services pods"
  let ?r' = "?r\<lparr>ru_agent := resync Y l (ru_agent ?r)\<rparr>"
  have st: "agent_step Y cfg Resynced ?r ?r'" using assms(1) by (rule resynced)
  obtain out where out: "outbox (ru_agent ?r') = outbox (ru_agent ?r) @ out" using step_grows [OF st] by blast
  have snap: "?snap \<in> set out" using resync_sends [OF assms(2,3), of "ru_agent ?r" Y] out by simp
  let ?y = "y\<lparr>sy_run := ?r', sy_sent := sy_sent y @ out, sy_flight := sy_flight y + mset out\<rparr>"
  have "system_steps Y cfg K to_json y ?y" using agent_works [OF st out] by (rule one_step)
  moreover have "system_step Y cfg K to_json ?y
      (?y\<lparr>sy_flight := sy_flight ?y - {#?snap#}, sy_pool := receive to_json 0 ?snap (sy_pool ?y)\<rparr>)"
    using snap by (intro delivered) simp
  moreover have "resynced_system Y l to_json ?snap y =
      ?y\<lparr>sy_flight := sy_flight ?y - {#?snap#}, sy_pool := receive to_json 0 ?snap (sy_pool ?y)\<rparr>"
    using out by (simp add: resynced_system_def Let_def)
  ultimately show ?thesis by (metis system_steps.more)
qed

lemma works_schedule: "(pool_work K)\<^sup>*\<^sup>* P (run_schedule (thread_step K) ks P)"
proof (induction ks rule: rev_induct)
  case (snoc k ks)
  then show ?case using pool_work.advance [of K "run_schedule (thread_step K) ks P" k] by simp
qed simp

section \<open>A sample system\<close>

text \<open>One service with one pod, and a YAML reader for one route file.\<close>

definition sample_lists :: api_lists where
  "sample_lists = \<lparr>al_services = Inr [sample_service ''web'' ''prod'' [(''app'', ''web'')]],
     al_pods = Inr [sample_pod ''web-1'' ''prod'' [(''app'', ''web'')] ''10.0.0.5''], al_configmaps = Inl ''down''\<rparr>"

definition sample_snapshot :: rpc where
  "sample_snapshot = send_initial_pod_service_map [sample_service ''web'' ''prod'' [(''app'', ''web'')]]
     [sample_pod ''web-1'' ''prod'' [(''app'', ''web'')] ''10.0.0.5'']"

definition sample_system ::
  "((string, pod_info) hash_map, (string, service_info) hash_map, (string, string \<times> string) hash_map) system" where
  "sample_system = start_system (yaml_values sample_envoy) sample_config hash_caches sample_lists"

lemma sample_reachable_system: "system_reachable (yaml_values sample_envoy) sample_config hash_caches to_json sample_system"
  unfolding system_reachable_def sample_system_def using system_steps.stay by blast

lemma sample_flight: "sy_flight sample_system = {#sample_snapshot#}"
  by (simp add: sample_system_def start_system_def start_run_def Let_def resync_def sync_pod_map_def
      sync_envoy_routes_def sample_lists_def sample_snapshot_def spawn_send_def empty_agent_def)

section \<open>Properties\<close>

text \<open>C18. Nothing about pods is made up on the way: however requests are lost, overtake each other and
  interleave in Core, and whatever is restarted when, Core knows an address only as an agent has
  announced it, every caller in its graph is the named application of an announced pod, the graph is well
  formed and has at most one flow per recording task that saved one.\<close>

theorem system_safe:
  assumes "cache_laws (pods_ops K)" and "system_reachable Y cfg K to_json y"
  shows "(\<forall>a p. cache_get (pods_ops K) (pod_cache (fst (sy_pool y))) a = Some p \<longrightarrow> (a, p) \<in> announced_by (sy_sent y)) \<and>
    (\<forall>f \<in> flow_set (inner (topo (fst (sy_pool y)))). application_name (source_node f) \<noteq> [] \<and>
       (\<exists>a p. (a, p) \<in> announced_by (sy_sent y) \<and> source_node f = mk_node (pod_application_name p) (pod_namespace p))) \<and>
    topo_inv (inner (topo (fst (sy_pool y)))) \<and>
    card (flow_set (inner (topo (fst (sy_pool y))))) \<le> how_many saved (snd (sy_pool y))"
  using system_ok_reachable [OF assms]
  by (cases "sy_pool y") (simp add: system_ok_def runtime_inv_def pool_from_def sources_named_def node_from_def)

theorem system_safe_witness:
  "(''10.0.0.5'', \<lparr>pod_namespace = ''prod'', pod_application_name = ''web'', pod_service_name = ''web'',
      pod_service_type = ''ClusterIP''\<rparr>) \<in> announced_by (sy_sent sample_system)"
proof -
  let ?y = "handled (\<lambda>_. ''{}'') hash_caches sample_snapshot sample_system"
  have "system_steps (yaml_values sample_envoy) sample_config hash_caches (\<lambda>_. ''{}'') sample_system ?y"
    by (rule handled_steps) (simp add: sample_flight)
  then have reach: "system_reachable (yaml_values sample_envoy) sample_config hash_caches (\<lambda>_. ''{}'') ?y"
    using sample_reachable_system reachable_steps by blast
  have "cache_get (pods_ops hash_caches) (pod_cache (fst (sy_pool ?y))) ''10.0.0.5'' =
      Some \<lparr>pod_namespace = ''prod'', pod_application_name = ''web'', pod_service_name = ''web'', pod_service_type = ''ClusterIP''\<rparr>"
    unfolding handled_sel sample_snapshot_def
    by (subst snapshot_resolves_selected)
      (simp_all add: hash_cache_laws sample_pod_def sample_service_def pod_ip_def selects_def map_or_default_def str_or_default_def)
  then show ?thesis using system_safe [OF _ reach] by (metis handled_sel(3) hash_cache_laws hash_caches_sel(1))
qed

text \<open>C37. One turn of the resync task repairs the attribution of the pods it lists. Let the agent not have
  returned and both lists of the API server succeed, and let no handler that changes the pod
  cache be unfinished at Core; of the rest of the state nothing is assumed: Core may just have
  restarted, requests may be lost or out of order. Then the system can send the snapshot and deliver it, and its
  handler can be run to its end. Once it has, however recording tasks and the handlers of the
  requests received before interleaved with it (no further request being received meanwhile), an address resolves to the
  last listed service that selects a pod with that address. An address that no listed service selects is as
  before: a pod without a service stays unknown to a restarted Core, and a vanished pod stays known.\<close>

theorem system_recovers:
  fixes services :: "service_obj list" and pods :: "pod_obj list" and Y :: "'y yaml_ops"
    and to_json :: "(string, string) hash_map \<Rightarrow> string" and y :: "('p, 's, 'e) system"
  assumes laws: "cache_laws (pods_ops K)" and run: "\<not> ru_returned (sy_run y)"
    and lists: "al_services l = Inr services" "al_pods l = Inr pods"
    and quiet: "\<forall>t \<in> set (snd (sy_pool y)). pod_quiet t"
  defines "y1 \<equiv> resynced_system Y l to_json (send_initial_pod_service_map services pods) y"
  defines "settled \<equiv> \<lambda>P. (pool_work K)\<^sup>*\<^sup>* (sy_pool y1) P \<and> snd P ! length (snd (sy_pool y)) = Handler []"
  shows "system_steps Y cfg K to_json y y1 \<and> (\<exists>P. settled P) \<and>
    (\<forall>P addr. settled P \<longrightarrow> cache_get (pods_ops K) (pod_cache (fst P)) addr =
      (case find (\<lambda>svc. \<exists>pod \<in> set pods. pod_ip pod = Some addr \<and> selects svc pod) (rev services) of
         None \<Rightarrow> cache_get (pods_ops K) (pod_cache (fst (sy_pool y))) addr
       | Some svc \<Rightarrow>
           Some \<lparr>pod_namespace = str_or_default (om_namespace (sv_metadata svc)),
                 pod_application_name = str_or_default (om_name (sv_metadata svc)),
                 pod_service_name = str_or_default (om_name (sv_metadata svc)),
                 pod_service_type = (case ss_type (the (sv_spec svc)) of None \<Rightarrow> ''ClusterIP'' | Some t \<Rightarrow> t)\<rparr>))"
proof (intro conjI allI impI)
  let ?snap = "send_initial_pod_service_map services pods" and ?n = "length (snd (sy_pool y))"
  let ?as = "handler_actions to_json 0 ?snap"
  have pool: "sy_pool y1 = receive to_json 0 ?snap (sy_pool y)" by (simp add: y1_def resynced_system_def Let_def)
  show "system_steps Y cfg K to_json y y1" unfolding y1_def using run lists by (rule resynced_steps)
  have "snd (run_schedule (thread_step K) (replicate (length ?as) ?n) (sy_pool y1)) ! ?n = Handler []"
    by (cases "sy_pool y") (simp add: pool receive_def solo_handler nth_append)
  then show "\<exists>P. settled P" unfolding settled_def using works_schedule by blast
  fix P addr assume "settled P"
  then have "alone K (fst (sy_pool y)) ?as ?n P" "snd P ! ?n = Handler []"
    using alone_works alone_receive [OF quiet] unfolding settled_def pool by blast+
  from alone_finished [OF this]
  show "cache_get (pods_ops K) (pod_cache (fst P)) addr =
      (case find (\<lambda>svc. \<exists>pod \<in> set pods. pod_ip pod = Some addr \<and> selects svc pod) (rev services) of
         None \<Rightarrow> cache_get (pods_ops K) (pod_cache (fst (sy_pool y))) addr
       | Some svc \<Rightarrow>
           Some \<lparr>pod_namespace = str_or_default (om_namespace (sv_metadata svc)),
                 pod_application_name = str_or_default (om_name (sv_metadata svc)),
                 pod_service_name = str_or_default (om_name (sv_metadata svc)),
                 pod_service_type = (case ss_type (the (sv_spec svc)) of None \<Rightarrow> ''ClusterIP'' | Some t \<Rightarrow> t)\<rparr>)"
    by (simp only: handler_actions_run snapshot_resolves_selected [OF laws])
qed

theorem system_recovers_witness:
  "\<exists>P. (pool_work hash_caches)\<^sup>*\<^sup>* (sy_pool (resynced_system (yaml_values sample_envoy) sample_lists (\<lambda>_. ''{}'')
       sample_snapshot sample_system)) P \<and>
     cache_get hash_cache (pod_cache (fst P)) ''10.0.0.5'' =
       Some \<lparr>pod_namespace = ''prod'', pod_application_name = ''web'', pod_service_name = ''web'', pod_service_type = ''ClusterIP''\<rparr>"
proof -
  have sel: "find (\<lambda>svc. \<exists>pod \<in> set [sample_pod ''web-1'' ''prod'' [(''app'', ''web'')] ''10.0.0.5''].
      pod_ip pod = Some ''10.0.0.5'' \<and> selects svc pod) (rev [sample_service ''web'' ''prod'' [(''app'', ''web'')]]) =
      Some (sample_service ''web'' ''prod'' [(''app'', ''web'')])"
    by (simp add: sample_pod_def sample_service_def pod_ip_def selects_def map_or_default_def)
  have "\<not> ru_returned (sy_run sample_system)" "\<forall>t \<in> set (snd (sy_pool sample_system)). pod_quiet t"
    "al_services sample_lists = Inr [sample_service ''web'' ''prod'' [(''app'', ''web'')]]"
    "al_pods sample_lists = Inr [sample_pod ''web-1'' ''prod'' [(''app'', ''web'')] ''10.0.0.5'']"
    by (simp_all add: sample_system_def start_system_def start_run_def Let_def sample_lists_def)
  then show ?thesis
    using system_recovers [of hash_caches sample_system sample_lists, where Y = "yaml_values sample_envoy" and
        to_json = "\<lambda>_. ''{}''" and cfg = sample_config] sel
    by (fastforce simp: hash_cache_laws sample_snapshot_def sample_service_def str_or_default_def)
qed

text \<open>C22. Requests overtake each other: the notification that a pod is gone may reach Core before the one
  that announced it. Then, with both delivered, Core attributes the address to the vanished pod, and
  no later snapshot, which only adds, takes it back.\<close>

theorem deletion_overtaken:
  fixes y :: "('p, 's, 'e) system" and pod :: pod_obj
  assumes laws: "cache_laws (pods_ops K)" and run: "\<not> ru_returned (sy_run y)" "InfPod \<in> set (ru_tasks (sy_run y))"
    and addr: "pod_ip_and_namespace pod = Some (a, ns)"
  defines "svc \<equiv> (case find_service_for_pod (registry (ru_agent (sy_run y))) pod of None \<Rightarrow> ([], []) | Some q \<Rightarrow> q)"
  defines "app \<equiv> resolve_application_name pod (fst svc)"
  shows "\<exists>y' p. system_steps Y cfg K to_json y y' \<and>
    sy_sent y' = sy_sent y @ [agg_pod_applied a ns app (fst svc) (snd svc), agg_pod_deleted a] \<and>
    sy_flight y' = sy_flight y \<and>
    cache_get (pods_ops K) (pod_cache (fst (sy_pool y'))) a = Some p \<and> pod_application_name p = app \<and>
    (\<forall>services pods. (\<forall>q \<in> set pods. pod_ip q \<noteq> Some a) \<longrightarrow>
       cache_get (pods_ops K) (pod_cache (snd (handle_rpc K to_json now (send_initial_pod_service_map services pods)
         (fst (sy_pool y'))))) a = Some p)"
proof -
  let ?r1 = "agg_pod_applied a ns app (fst svc) (snd svc)" and ?r2 = "agg_pod_deleted a"
  let ?p = "\<lparr>pod_namespace = ns, pod_application_name = app, pod_service_name = fst svc, pod_service_type = snd svc\<rparr>"
  define y2 where "y2 = watched_pod (WDelete pod) (watched_pod (WApply pod) y)"
  define y' where "y' = handled to_json K ?r1 (handled to_json K ?r2 y2)"
  have ip: "pod_ip pod = Some a" using addr by (auto simp: pod_ip_def pod_ip_and_namespace_def split: bind_splits)
  have y2: "sy_sent y2 = sy_sent y @ [?r1, ?r2]" "sy_flight y2 = sy_flight y + {#?r1, ?r2#}" "sy_pool y2 = sy_pool y"
    "sy_run y2 = (sy_run y)\<lparr>ru_agent := spawn_send ?r2 (spawn_send ?r1 (ru_agent (sy_run y)))\<rparr>"
    using addr ip
    by (simp_all add: y2_def watched_pod_def pod_handler_def pod_on_apply_def pod_on_delete_def spawn_send_def Let_def
        svc_def app_def case_prod_unfold)
  have "system_steps Y cfg K to_json y (watched_pod (WApply pod) y)" using run by (rule watched_pod_steps)
  moreover have "system_steps Y cfg K to_json (watched_pod (WApply pod) y) y2"
    unfolding y2_def using run by (intro watched_pod_steps) (simp_all add: watched_pod_def Let_def)
  moreover have "system_steps Y cfg K to_json y2 (handled to_json K ?r2 y2)" by (rule handled_steps) (simp add: y2)
  moreover have "system_steps Y cfg K to_json (handled to_json K ?r2 y2) y'"
    unfolding y'_def by (rule handled_steps) (simp add: y2 agg_pod_applied_def agg_pod_deleted_def)
  ultimately have "system_steps Y cfg K to_json y y'" by (blast intro: steps_trans)
  moreover have cached: "cache_get (pods_ops K) (pod_cache (fst (sy_pool y'))) a = Some ?p"
    by (simp add: y'_def agg_pod_applied_def send_pod_event_def k8s_event_type_try_from_def event_type_i32_def
        get_record_pod_applied [OF laws])
  moreover have "cache_get (pods_ops K) (pod_cache (snd (handle_rpc K to_json now (send_initial_pod_service_map services pods)
       (fst (sy_pool y'))))) a = Some ?p" if "\<forall>q \<in> set pods. pod_ip q \<noteq> Some a" for services pods
  proof -
    have "find (\<lambda>svc. \<exists>pod \<in> set pods. pod_ip pod = Some a \<and> selects svc pod) (rev services) = None"
      using that by (auto simp: find_None_iff)
    then show ?thesis by (simp add: snapshot_resolves_selected [OF laws] cached del: handle_rpc.simps)
  qed
  ultimately show ?thesis by (intro exI [of _ y'] exI [of _ ?p]) (simp add: y'_def y2)
qed

theorem deletion_overtaken_witness:
  "\<exists>y' p. system_reachable (yaml_values sample_envoy) sample_config hash_caches (\<lambda>_. ''{}'') y' \<and>
    sy_sent y' = sy_sent sample_system @ [agg_pod_applied ''10.0.0.6'' ''prod'' ''job'' [] [], agg_pod_deleted ''10.0.0.6''] \<and>
    cache_get hash_cache (pod_cache (fst (sy_pool y'))) ''10.0.0.6'' = Some p \<and> pod_application_name p = ''job''"
proof -
  let ?pod = "sample_pod ''job-1'' ''prod'' [(''app'', ''job'')] ''10.0.0.6''"
  have run: "\<not> ru_returned (sy_run sample_system)" "InfPod \<in> set (ru_tasks (sy_run sample_system))"
    by (simp_all add: sample_system_def start_system_def start_run_def Let_def created_types)
  have addr: "pod_ip_and_namespace ?pod = Some (''10.0.0.6'', ''prod'')"
    by (simp add: pod_ip_and_namespace_def sample_pod_def str_or_default_def)
  have none: "find_service_for_pod (registry (ru_agent (sy_run sample_system))) ?pod = None"
    by (simp add: sample_system_def start_system_def start_run_def Let_def empty_agent_def find_service_for_pod_def sample_pod_def)
  have app: "resolve_application_name ?pod [] = ''job''"
    by (simp add: resolve_application_name_def sample_pod_def Let_def)
  show ?thesis
    using deletion_overtaken [OF _ run addr, of hash_caches "yaml_values sample_envoy" sample_config "\<lambda>_. ''{}''"]
      sample_reachable_system reachable_steps
    unfolding none by (simp add: app hash_cache_laws) blast
qed

end
