(* ===== verification/Load_Test.thy ===== *)
theory Load_Test
  imports Rust_Strings
begin

text \<open>
  The load generator, \<^verbatim>\<open>load-tests/src/main.rs\<close>: two loops that run until a deadline, one
  creating, patching and deleting config maps, one sending HTTP requests. The
  Kubernetes API and the HTTP client are parameters over an abstract state; the clock is
  the sequence of instants that the loop condition reads. The loops may run forever if the clock
  never reaches the deadline, so they are partial functions.
\<close>

section \<open>Arguments and statistics\<close>

record load_args =
  la_k8s_rps :: u32
  la_http_rps :: u32
  la_http_target :: string
  la_k8s_namespace :: string
  la_duration :: u64

definition default_args :: load_args where
  "default_args = \<lparr>la_k8s_rps = 0, la_http_rps = 0, la_http_target = ''http://service-b.default.svc.cluster.local/'',
     la_k8s_namespace = ''load-gen'', la_duration = 60\<rparr>"

record stats =
  st_sent :: u64
  st_errors :: u64

definition stats_ok :: "stats \<Rightarrow> stats" where
  "stats_ok s = s\<lparr>st_sent := st_sent s + 1\<rparr>"

definition stats_err :: "stats \<Rightarrow> stats" where
  "stats_err s = s\<lparr>st_errors := st_errors s + 1\<rparr>"

definition stats_snapshot :: "stats \<Rightarrow> u64 \<times> u64" where
  "stats_snapshot s = (st_sent s, st_errors s)"

definition count_result :: "bool \<Rightarrow> stats \<Rightarrow> stats" where
  "count_result success s = (if success then stats_ok s else stats_err s)"

section \<open>A loop until a deadline\<close>

partial_function (option) until_deadline :: "(nat \<Rightarrow> nat) \<Rightarrow> nat \<Rightarrow> ('s \<Rightarrow> 's) \<Rightarrow> nat \<Rightarrow> 's \<Rightarrow> 's option" where
  "until_deadline clock deadline step i s =
     (if clock i < deadline then until_deadline clock deadline step (Suc i) (step s) else Some s)"

declare until_deadline.simps [code]

text \<open>An interval never ticks early: the first tick is immediate and each further one is at least a
  period later, so the reading after \<open>n + 1\<close> ticks is no earlier than \<open>n\<close> periods after the start.\<close>

definition on_schedule :: "nat \<Rightarrow> nat \<Rightarrow> (nat \<Rightarrow> nat) \<Rightarrow> bool" where
  "on_schedule started period clock \<longleftrightarrow> 0 < period \<and> (\<forall>n. started + n * period \<le> clock (Suc n))"

section \<open>The config map stream\<close>

text \<open>Create, merge-patch and delete a config map; the result says whether the call succeeded.\<close>

record 'c config_map_api =
  api_create :: "string \<Rightarrow> string \<Rightarrow> string \<Rightarrow> 'c \<Rightarrow> bool \<times> 'c"
  api_patch :: "string \<Rightarrow> string \<Rightarrow> string \<Rightarrow> 'c \<Rightarrow> bool \<times> 'c"
  api_delete :: "string \<Rightarrow> string \<Rightarrow> 'c \<Rightarrow> bool \<times> 'c"

record 'c k8s_load =
  kl_tick :: u64
  kl_pool :: "string list"
  kl_stats :: stats
  kl_cluster :: 'c

datatype k8s_op = OpPatch | OpCreate | OpDelete

definition choose_op :: "u64 \<Rightarrow> string list \<Rightarrow> k8s_op" where
  "choose_op tick pool =
     (if pool = [] then OpCreate
      else
        let m = unat (tick mod 10) in
        if m \<le> 5 then OpPatch
        else if m \<le> 7 then (if length pool < 50 then OpCreate else OpPatch)
        else OpDelete)"

definition k8s_tick :: "'c config_map_api \<Rightarrow> string \<Rightarrow> 'c k8s_load \<Rightarrow> 'c k8s_load" where
  "k8s_tick api ns s =
     (let tick = kl_tick s; pool = kl_pool s;
          (result, pool', cluster') =
            (case choose_op tick pool of
               OpPatch \<Rightarrow>
                 (let name = pool ! (unat tick mod length pool);
                      (r, c) = api_patch api ns name (nat_str (unat tick)) (kl_cluster s)
                  in (r, pool, c))
             | OpCreate \<Rightarrow>
                 (let name = ''load-gen-'' @ nat_str (unat tick);
                      (r, c) = api_create api ns name (nat_str (unat tick)) (kl_cluster s)
                  in (r, if r then pool @ [name] else pool, c))
             | OpDelete \<Rightarrow>
                 (let (r, c) = api_delete api ns (hd pool) (kl_cluster s)
                  in (r, tl pool, c)))
      in \<lparr>kl_tick = tick + 1, kl_pool = pool', kl_stats = count_result result (kl_stats s), kl_cluster = cluster'\<rparr>)"

definition start_k8s :: "stats \<Rightarrow> 'c \<Rightarrow> 'c k8s_load" where
  "start_k8s st c = \<lparr>kl_tick = 0, kl_pool = [], kl_stats = st, kl_cluster = c\<rparr>"

text \<open>The clean-up after the loop ignores the results of its deletions.\<close>

definition clean_up :: "'c config_map_api \<Rightarrow> string \<Rightarrow> 'c k8s_load \<Rightarrow> 'c k8s_load" where
  "clean_up api ns s = s\<lparr>kl_cluster := fold (\<lambda>name c. snd (api_delete api ns name c)) (kl_pool s) (kl_cluster s)\<rparr>"

text \<open>\<open>Client::try_default().await?\<close> may fail before the loop.\<close>

definition k8s_stream :: "(unit, string) rust_result \<Rightarrow> 'c config_map_api \<Rightarrow> string \<Rightarrow> (nat \<Rightarrow> nat) \<Rightarrow> nat
    \<Rightarrow> stats \<Rightarrow> 'c \<Rightarrow> ('c k8s_load, string) rust_result option" where
  "k8s_stream client api ns clock deadline st c =
     (case client of
        Inl e \<Rightarrow> Some (Inl e)
      | Inr _ \<Rightarrow> map_option (\<lambda>s. Inr (clean_up api ns s))
          (until_deadline clock deadline (k8s_tick api ns) 0 (start_k8s st c)))"

section \<open>The HTTP stream\<close>

definition load_paths :: "string list" where
  "load_paths = [''/'', ''/api/v1/users'', ''/api/v1/orders'', ''/api/v1/status'', ''/metrics'']"

text \<open>\<open>s.trim_end_matches(c)\<close>\<close>

definition trim_end_matches :: "char \<Rightarrow> string \<Rightarrow> string" where
  "trim_end_matches c s = rev (dropWhile (\<lambda>x. x = c) (rev s))"

record 'h http_load =
  hl_tick :: u64
  hl_stats :: stats
  hl_net :: 'h

definition http_url :: "string \<Rightarrow> u64 \<Rightarrow> string" where
  "http_url target tick = trim_end_matches (CHR ''/'') target @ load_paths ! (unat tick mod length load_paths)"

definition http_tick :: "(string \<Rightarrow> 'h \<Rightarrow> bool \<times> 'h) \<Rightarrow> string \<Rightarrow> 'h http_load \<Rightarrow> 'h http_load" where
  "http_tick get target s =
     (let (r, h) = get (http_url target (hl_tick s)) (hl_net s)
      in \<lparr>hl_tick = hl_tick s + 1, hl_stats = count_result r (hl_stats s), hl_net = h\<rparr>)"

definition http_stream :: "(unit, string) rust_result \<Rightarrow> (string \<Rightarrow> 'h \<Rightarrow> bool \<times> 'h) \<Rightarrow> string \<Rightarrow> (nat \<Rightarrow> nat) \<Rightarrow> nat
    \<Rightarrow> stats \<Rightarrow> 'h \<Rightarrow> ('h http_load, string) rust_result option" where
  "http_stream client get target clock deadline st h =
     (case client of
        Inl e \<Rightarrow> Some (Inl e)
      | Inr _ \<Rightarrow> map_option Inr (until_deadline clock deadline (http_tick get target) 0
          \<lparr>hl_tick = 0, hl_stats = st, hl_net = h\<rparr>))"

section \<open>The program\<close>

datatype load_task = K8sTask string u32 | HttpTask string u32

datatype load_exit = ExitUsage | ExitFailed string | ExitOk "load_task list"

text \<open>The tasks \<open>main\<close> spawns; it waits for them in that order and stops at the first that failed.\<close>

definition load_tasks :: "load_args \<Rightarrow> load_task list" where
  "load_tasks args =
     (if 0 < la_k8s_rps args then [K8sTask (la_k8s_namespace args) (la_k8s_rps args)] else [])
     @ (if 0 < la_http_rps args then [HttpTask (la_http_target args) (la_http_rps args)] else [])"

fun await_all :: "(load_task \<Rightarrow> (unit, string) rust_result) \<Rightarrow> load_task list \<Rightarrow> (unit, string) rust_result" where
  "await_all res [] = Inr ()"
| "await_all res (t # ts) = (case res t of Inl e \<Rightarrow> Inl e | Inr _ \<Rightarrow> await_all res ts)"

definition load_main :: "load_args \<Rightarrow> (load_task \<Rightarrow> (unit, string) rust_result) \<Rightarrow> load_exit" where
  "load_main args res =
     (if la_k8s_rps args = 0 \<and> la_http_rps args = 0 then ExitUsage
      else case await_all res (load_tasks args) of Inl e \<Rightarrow> ExitFailed e | Inr _ \<Rightarrow> ExitOk (load_tasks args))"

section \<open>Loops return\<close>

lemma until_deadline_steps:
  assumes "\<forall>j < n. clock (i + j) < deadline" and "deadline \<le> clock (i + n)"
  shows "until_deadline clock deadline step i s = Some ((step ^^ n) s)"
  using assms
proof (induction n arbitrary: i s)
  case 0
  then show ?case by (simp add: until_deadline.simps)
next
  case (Suc n)
  have "until_deadline clock deadline step (Suc i) (step s) = Some ((step ^^ n) (step s))"
    using Suc.prems by (intro Suc.IH) auto
  moreover have "clock i < deadline" using Suc.prems(1) by force
  ultimately show ?case by (subst until_deadline.simps) (simp add: funpow_swap1)
qed

lemma until_deadline_returns:
  assumes "on_schedule started period clock"
  obtains n where "n \<le> (deadline - started) div period + 2" and "\<forall>j < n. clock j < deadline"
    and "until_deadline clock deadline step 0 s = Some ((step ^^ n) s)"
proof -
  let ?N = "Suc (Suc ((deadline - started) div period))"
  have p: "0 < period" and "started + Suc ((deadline - started) div period) * period \<le> clock ?N"
    using assms unfolding on_schedule_def by blast+
  moreover have "deadline - started < Suc ((deadline - started) div period) * period"
    using p dividend_less_div_times [of period "deadline - started"] by (simp add: algebra_simps)
  ultimately have "deadline \<le> clock ?N" by linarith
  then obtain n where n: "deadline \<le> clock n" "\<forall>j < n. \<not> deadline \<le> clock j" "n \<le> ?N"
    using ex_least_nat_le [of "\<lambda>n. deadline \<le> clock n" ?N] by blast
  show thesis
    using that [of n] n until_deadline_steps [of n clock 0 deadline step s]
    by (simp add: not_le)
qed

text \<open>The contract between a stream and its loop: an invariant that every tick keeps holds after any number
  of ticks and when the loop returns.\<close>

locale ticking =
  fixes step :: "'s \<Rightarrow> 's" and I :: "'s \<Rightarrow> bool"
  assumes tick_keeps: "I s \<Longrightarrow> I (step s)"
begin

lemma ticks_keep: "I s \<Longrightarrow> I ((step ^^ n) s)"
  by (induction n) (simp_all add: tick_keeps)

lemma loop_keeps:
  assumes "on_schedule started period clock" and "I s"
  shows "\<exists>s'. until_deadline clock deadline step 0 s = Some s' \<and> I s'"
  using until_deadline_returns [OF assms(1), of deadline step s] ticks_keep [OF assms(2)] by metis

end

section \<open>The pool\<close>

text \<open>How many config maps can exist before a tick, by the last digit of the tick.\<close>

definition pool_cap :: "nat \<Rightarrow> nat" where
  "pool_cap m = (if m \<le> 6 then 1 else if m = 7 then 2 else if m = 8 then 3 else 2)"

definition pool_inv :: "'c k8s_load \<Rightarrow> bool" where
  "pool_inv s \<longleftrightarrow> length (kl_pool s) \<le> pool_cap (unat (kl_tick s mod 10))"

lemma digit_next:
  "unat ((t + 1 :: u64) mod 10) = (if t = - 1 then 0 else Suc (unat t mod 10) mod 10)"
  "t = (- 1 :: u64) \<Longrightarrow> unat t mod 10 = 5"
proof -
  show "unat ((t + 1 :: u64) mod 10) = (if t = - 1 then 0 else Suc (unat t mod 10) mod 10)"
  proof (cases "t = - 1")
    case False
    then have "unat (t + 1) = Suc (unat t)" using unatSuc [of t] by (simp add: add.commute eq_neg_iff_add_eq_0)
    then show ?thesis using False by (simp add: unat_mod mod_Suc_eq)
  qed simp
  show "t = (- 1 :: u64) \<Longrightarrow> unat t mod 10 = 5" by (simp add: unsigned_minus_1_eq_mask mask_eq_exp_minus_1)
qed

lemma pool_step:
  "length (kl_pool (k8s_tick api ns s)) \<le>
     (case choose_op (kl_tick s) (kl_pool s) of
        OpPatch \<Rightarrow> length (kl_pool s) | OpCreate \<Rightarrow> Suc (length (kl_pool s)) | OpDelete \<Rightarrow> length (kl_pool s) - 1)"
  by (simp add: k8s_tick_def Let_def split: k8s_op.split prod.split)

lemma tick_step [simp]: "kl_tick (k8s_tick api ns s) = kl_tick s + 1"
  by (simp add: k8s_tick_def Let_def split: k8s_op.split prod.split)

lemma pool_inv_step:
  assumes "pool_inv s"
  shows "pool_inv (k8s_tick api ns s)"
proof -
  let ?m = "unat (kl_tick s) mod 10"
  have m: "?m < 10" by simp
  have inv: "length (kl_pool s) \<le> pool_cap ?m" using assms by (simp add: pool_inv_def unat_mod)
  have next_digit: "unat ((kl_tick s + 1) mod 10) \<in> {0, Suc ?m mod 10}" "kl_tick s = - 1 \<longrightarrow> ?m = 5"
    using digit_next [of "kl_tick s"] by auto
  have "length (kl_pool (k8s_tick api ns s)) \<le> (if kl_pool s = [] then 1 else if ?m \<le> 5 then length (kl_pool s)
      else if ?m \<le> 7 then Suc (length (kl_pool s)) else length (kl_pool s) - 1)"
    using pool_step [of api ns s] by (auto simp: choose_op_def Let_def unat_mod split: if_splits)
  moreover have "unat ((kl_tick s + 1) mod 10) = (if kl_tick s = - 1 then 0 else Suc ?m mod 10)"
    by (rule digit_next)
  ultimately show ?thesis
    using inv m next_digit(2) unfolding pool_inv_def tick_step
    by (auto simp: pool_cap_def mod_Suc split: if_splits)
qed

interpretation pool: ticking "k8s_tick api ns" pool_inv for api :: "'c config_map_api" and ns
  by unfold_locales (rule pool_inv_step)

lemma pool_inv_run: "pool_inv ((k8s_tick api ns ^^ n) (start_k8s st c))"
  by (rule pool.ticks_keep) (simp add: pool_inv_def start_k8s_def pool_cap_def)

text \<open>Every request of the HTTP stream is counted, as sent or as failed.\<close>

definition counted :: "'h http_load \<Rightarrow> bool" where
  "counted s \<longleftrightarrow> st_sent (hl_stats s) + st_errors (hl_stats s) = hl_tick s"

interpretation http: ticking "http_tick get target" "counted :: 'h http_load \<Rightarrow> bool"
  for get :: "string \<Rightarrow> 'h \<Rightarrow> bool \<times> 'h" and target
  by unfold_locales
    (auto simp: counted_def http_tick_def count_result_def stats_ok_def stats_err_def Let_def split: prod.split)

lemma http_stream_counts:
  assumes "on_schedule started period clock"
  shows "\<exists>final. http_stream (Inr ()) get target clock deadline \<lparr>st_sent = 0, st_errors = 0\<rparr> h = Some (Inr final) \<and> counted final"
  using http.loop_keeps [OF assms, of "\<lparr>hl_tick = 0, hl_stats = \<lparr>st_sent = 0, st_errors = 0\<rparr>, hl_net = h\<rparr>"]
  by (auto simp: http_stream_def counted_def)

section \<open>What the cluster holds\<close>

text \<open>
  What is known of the calls, over the set \<open>live\<close> of config map names in the namespace: a creation
  succeeds only for a new name and adds it; a patch keeps the names; a deletion that succeeds
  removes the name. A creation or deletion that is reported as failed may have failed before or
  after it took effect, so that nothing more is known than that no other name is concerned.
  No other client changes the namespace meanwhile.
\<close>

definition config_map_laws :: "('c \<Rightarrow> string set) \<Rightarrow> 'c config_map_api \<Rightarrow> string \<Rightarrow> bool" where
  "config_map_laws live api ns \<longleftrightarrow> (\<forall>name v c.
     (if fst (api_create api ns name v c) then name \<notin> live c \<and> live (snd (api_create api ns name v c)) = insert name (live c)
      else live (snd (api_create api ns name v c)) \<in> {live c, insert name (live c)}) \<and>
     live (snd (api_patch api ns name v c)) = live c \<and>
     (if fst (api_delete api ns name c) then live (snd (api_delete api ns name c)) = live c - {name}
      else live (snd (api_delete api ns name c)) \<in> {live c, live c - {name}}))"

definition own_name :: "nat \<Rightarrow> string" where
  "own_name k = ''load-gen-'' @ nat_str k"

text \<open>The name whose creation or deletion is reported as failed in a tick, and those of the clean-up.\<close>

definition tick_failure :: "'c config_map_api \<Rightarrow> string \<Rightarrow> 'c k8s_load \<Rightarrow> string set" where
  "tick_failure api ns s =
     (case choose_op (kl_tick s) (kl_pool s) of
        OpPatch \<Rightarrow> {}
      | OpCreate \<Rightarrow> if fst (api_create api ns (own_name (unat (kl_tick s))) (nat_str (unat (kl_tick s))) (kl_cluster s)) then {}
                    else {own_name (unat (kl_tick s))}
      | OpDelete \<Rightarrow> if fst (api_delete api ns (hd (kl_pool s)) (kl_cluster s)) then {} else {hd (kl_pool s)})"

fun clean_failures :: "'c config_map_api \<Rightarrow> string \<Rightarrow> string list \<Rightarrow> 'c \<Rightarrow> string set" where
  "clean_failures api ns [] c = {}"
| "clean_failures api ns (name # names) c =
     (if fst (api_delete api ns name c) then {} else {name}) \<union> clean_failures api ns names (snd (api_delete api ns name c))"

text \<open>Of the names in \<open>L\<close>, there before, none is touched; beside them the namespace has those of the pool and
  at most the names \<open>F\<close> of failed calls.\<close>

definition owned :: "('c \<Rightarrow> string set) \<Rightarrow> string set \<Rightarrow> string set \<Rightarrow> 'c k8s_load \<Rightarrow> bool" where
  "owned live L F s \<longleftrightarrow> distinct (kl_pool s) \<and> set (kl_pool s) \<inter> L = {} \<and> set (kl_pool s) \<union> F \<subseteq> range own_name \<and>
     L \<union> set (kl_pool s) \<subseteq> live (kl_cluster s) \<and> live (kl_cluster s) \<subseteq> L \<union> set (kl_pool s) \<union> F"

lemma owned_step:
  assumes "config_map_laws live api ns" and "owned live L F s"
  shows "owned live L (F \<union> tick_failure api ns s) (k8s_tick api ns s)"
proof (cases "choose_op (kl_tick s) (kl_pool s)")
  case OpPatch
  let ?n = "kl_pool s ! (unat (kl_tick s) mod length (kl_pool s))"
  obtain r c where rc: "api_patch api ns ?n (nat_str (unat (kl_tick s))) (kl_cluster s) = (r, c)" by fastforce
  then have "live c = live (kl_cluster s)"
    using assms(1) unfolding config_map_laws_def by (metis snd_conv)
  then show ?thesis using OpPatch rc assms(2) by (simp add: k8s_tick_def owned_def tick_failure_def Let_def)
next
  case OpCreate
  let ?n = "own_name (unat (kl_tick s))"
  obtain r c where rc: "api_create api ns ?n (nat_str (unat (kl_tick s))) (kl_cluster s) = (r, c)" by fastforce
  then have "if r then ?n \<notin> live (kl_cluster s) \<and> live c = insert ?n (live (kl_cluster s))
      else live c \<in> {live (kl_cluster s), insert ?n (live (kl_cluster s))}"
    using assms(1) unfolding config_map_laws_def by (metis fst_conv snd_conv)
  moreover have "kl_pool (k8s_tick api ns s) = (if r then kl_pool s @ [?n] else kl_pool s)" "kl_cluster (k8s_tick api ns s) = c"
    using OpCreate rc by (simp_all add: k8s_tick_def Let_def own_name_def)
  moreover have "tick_failure api ns s = (if r then {} else {?n})" using OpCreate rc by (simp add: tick_failure_def)
  ultimately show ?thesis using assms(2) by (cases r) (auto simp: owned_def)
next
  case OpDelete
  then obtain x xs where p: "kl_pool s = x # xs" by (cases "kl_pool s") (auto simp: choose_op_def)
  obtain r c where rc: "api_delete api ns x (kl_cluster s) = (r, c)" by fastforce
  then have "if r then live c = live (kl_cluster s) - {x} else live c \<in> {live (kl_cluster s), live (kl_cluster s) - {x}}"
    using assms(1) unfolding config_map_laws_def by (metis fst_conv snd_conv)
  then show ?thesis
    using OpDelete p rc assms(2) by (cases r) (auto simp: k8s_tick_def owned_def tick_failure_def Let_def)
qed

lemma owned_run:
  assumes "config_map_laws live api ns"
  shows "owned live (live c) (\<Union>k < n. tick_failure api ns ((k8s_tick api ns ^^ k) (start_k8s st c)))
    ((k8s_tick api ns ^^ n) (start_k8s st c))"
proof (induction n)
  case 0
  then show ?case by (simp add: owned_def start_k8s_def)
next
  case (Suc n)
  then show ?case using owned_step [OF assms Suc] by (simp add: lessThan_Suc Un_commute)
qed

lemma delete_all:
  assumes "config_map_laws live api ns"
  shows "live c - set names \<subseteq> live (fold (\<lambda>name c. snd (api_delete api ns name c)) names c)"
    and "live (fold (\<lambda>name c. snd (api_delete api ns name c)) names c) \<subseteq> live c - set names \<union> clean_failures api ns names c"
proof -
  have law: "if fst (api_delete api ns name c) then live (snd (api_delete api ns name c)) = live c - {name}
      else live (snd (api_delete api ns name c)) \<in> {live c, live c - {name}}" for name c
    using assms unfolding config_map_laws_def by blast
  have del: "live c - {name} \<subseteq> live (snd (api_delete api ns name c))"
    "live (snd (api_delete api ns name c)) \<subseteq> live c - {name} \<union> (if fst (api_delete api ns name c) then {} else {name})" for name c
    using law [of name c] by (auto split: if_splits)
  show "live c - set names \<subseteq> live (fold (\<lambda>name c. snd (api_delete api ns name c)) names c)"
  proof (induction names arbitrary: c)
    case (Cons name names)
    show ?case using Cons [of "snd (api_delete api ns name c)"] del(1) [of c name] by auto
  qed simp
  show "live (fold (\<lambda>name c. snd (api_delete api ns name c)) names c) \<subseteq> live c - set names \<union> clean_failures api ns names c"
  proof (induction names arbitrary: c)
    case (Cons name names)
    show ?case using Cons [of "snd (api_delete api ns name c)"] del(2) [of name c] by auto
  qed simp
qed

lemma clean_failures_names: "clean_failures api ns names c \<subseteq> set names"
  by (induction names arbitrary: c) auto

text \<open>A name leaves the pool before its deletion: a config map whose deletion fails without effect is left behind.\<close>

lemma failed_deletion_stays:
  assumes "choose_op (kl_tick s) (kl_pool s) = OpDelete" and "kl_pool s = x # xs" and "x \<notin> set xs"
    and "api_delete api ns x (kl_cluster s) = (False, c)" and "x \<in> live c"
  shows "x \<in> live (kl_cluster (k8s_tick api ns s)) \<and> x \<notin> set (kl_pool (k8s_tick api ns s))"
  using assms by (simp add: k8s_tick_def Let_def)

section \<open>Properties\<close>

text \<open>C33. With a ticker that never runs early, the config map stream ends: it returns after at most one
  operation per period up to the deadline and two more, and at no time does it keep more than three
  names in its pool. Every config map that was in the namespace before is still there, and what
  else is there has a name of the stream whose creation or deletion, in the loop or in the
  clean-up, was reported as failed. So if no such call fails, the namespace is as it was; if one
  fails, its config map may be left behind, as the stream does not try again.\<close>

theorem k8s_stream_returns:
  fixes st :: stats and api :: "'c config_map_api" and ns :: string and c :: 'c
  assumes "on_schedule started period clock" and "config_map_laws live api ns"
  defines "s \<equiv> \<lambda>k. (k8s_tick api ns ^^ k) (start_k8s st c)"
  shows "\<exists>n final. k8s_stream (Inr ()) api ns clock deadline st c = Some (Inr final) \<and>
    n \<le> (deadline - started) div period + 2 \<and> kl_tick final = of_nat n \<and>
    (\<forall>k. length (kl_pool (s k)) \<le> 3) \<and>
    live c \<subseteq> live (kl_cluster final) \<and>
    live (kl_cluster final) - live c \<subseteq> range own_name \<inter>
      ((\<Union>k < n. tick_failure api ns (s k)) \<union> clean_failures api ns (kl_pool (s n)) (kl_cluster (s n)))"
proof -
  obtain n where n: "n \<le> (deadline - started) div period + 2"
    and r: "until_deadline clock deadline (k8s_tick api ns) 0 (start_k8s st c) = Some (s n)"
    using until_deadline_returns [OF assms(1)] unfolding s_def by metis
  have tick: "kl_tick (s k) = of_nat k" for k
    unfolding s_def by (induction k) (simp_all, simp add: start_k8s_def)
  have pool: "length (kl_pool (s k)) \<le> 3" for k
    using pool_inv_run [of k api ns st c] by (auto simp: s_def pool_inv_def pool_cap_def split: if_splits)
  let ?F = "\<Union>k < n. tick_failure api ns (s k)"
  have o: "owned live (live c) ?F (s n)" using owned_run [OF assms(2), where c = c and n = n and st = st] by (simp add: s_def)
  let ?final = "clean_up api ns (s n)"
  have "live c \<subseteq> live (kl_cluster ?final)"
    using o delete_all(1) [OF assms(2), of "kl_cluster (s n)" "kl_pool (s n)"] by (auto simp: clean_up_def owned_def)
  moreover have "live (kl_cluster ?final) - live c \<subseteq> range own_name \<inter>
      (?F \<union> clean_failures api ns (kl_pool (s n)) (kl_cluster (s n)))"
  proof -
    let ?D = "clean_failures api ns (kl_pool (s n)) (kl_cluster (s n))"
    have names: "?F \<union> ?D \<subseteq> range own_name"
      using o clean_failures_names [of api ns "kl_pool (s n)" "kl_cluster (s n)"] unfolding owned_def by blast
    have "live (kl_cluster (s n)) - set (kl_pool (s n)) \<subseteq> live c \<union> ?F" using o unfolding owned_def by blast
    moreover have "live (kl_cluster ?final) \<subseteq> live (kl_cluster (s n)) - set (kl_pool (s n)) \<union> ?D"
      using delete_all(2) [OF assms(2)] by (simp add: clean_up_def)
    ultimately show ?thesis using names by blast
  qed
  ultimately show ?thesis
    using n r tick [of n] pool by (intro exI [of _ n] exI [of _ ?final]) (simp add: k8s_stream_def clean_up_def)
qed

text \<open>A namespace as the list of its config maps where deletions time out after they took effect, and a
  clock that ticks on time.\<close>

definition name_api :: "string list config_map_api" where
  "name_api = \<lparr>api_create = (\<lambda>_ name _ c. if name \<in> set c then (False, c) else (True, name # c)),
     api_patch = (\<lambda>_ name _ c. (name \<in> set c, c)), api_delete = (\<lambda>_ name c. (False, removeAll name c))\<rparr>"

lemma name_api_laws: "config_map_laws set name_api ns"
  by (auto simp: config_map_laws_def name_api_def)

theorem k8s_stream_returns_witness:
  "\<exists>n final. k8s_stream (Inr ()) name_api ''load-gen'' (\<lambda>i. 100 * i) 1000 \<lparr>st_sent = 0, st_errors = 0\<rparr> [''mine''] = Some (Inr final) \<and>
     n \<le> 12 \<and> kl_tick final = of_nat n \<and> ''mine'' \<in> set (kl_cluster final) \<and>
     set (kl_cluster final) - {''mine''} \<subseteq> range own_name"
proof -
  have "on_schedule 0 100 (\<lambda>i. 100 * i)" by (simp add: on_schedule_def)
  from k8s_stream_returns [OF this name_api_laws, where ns = "''load-gen''" and st = "\<lparr>st_sent = 0, st_errors = 0\<rparr>" and c = "[''mine'']" and deadline = 1000]
  show ?thesis by auto
qed

end
