(* ===== verification/Unit_Tests.thy ===== *)
theory Unit_Tests
  imports Agent_Wiring Loader_Wiring Subgraph
begin

text \<open>
  The repository's own unit tests, run on the model: the tests of
  \<^verbatim>\<open>core/src/topology/topology.rs\<close>, \<^verbatim>\<open>core/src/aggregator/ebpf_aggregator.rs\<close>,
  \<^verbatim>\<open>ebpf-common/src/lib.rs\<close> and \<^verbatim>\<open>cluster-agent/src/kubernetes/service_registry.rs\<close>. A test is the
  conjunction of its assertions; indexing a map that lacks the key panics, so it fails the test. All of them
  hold, by evaluation in the kernel: on these inputs the definitions compute what the tests expect of the code.
\<close>

section \<open>The topology\<close>

definition index_flow :: "(node_id, flow list) hash_map \<Rightarrow> node_id \<Rightarrow> (flow \<Rightarrow> bool) \<Rightarrow> bool" where
  "index_flow m n P = (case hm_get m n of Some (f # _) \<Rightarrow> P f | _ \<Rightarrow> False)"

definition index_ip :: "topology \<Rightarrow> node_id \<Rightarrow> string \<Rightarrow> bool" where
  "index_ip t n a = (case hm_get (nodes t) n of Some d \<Rightarrow> ip d = a | None \<Rightarrow> False)"

definition test_add_node_is_idempotent :: bool where
  "test_add_node_is_idempotent =
     (let id = mk_node ''svc-a'' ''default'';
          t = add_node id (node_data_of_ip ''10.0.0.2'') (add_node id (node_data_of_ip ''10.0.0.1'') new_topology)
      in length (nodes t) = 1 \<and> index_ip t id ''10.0.0.1'')"

definition test_add_flow_populates_both_maps :: bool where
  "test_add_flow_populates_both_maps =
     (let a = mk_node ''svc-a'' ''default''; b = mk_node ''svc-b'' ''default'';
          t = add_flow (test_flow ''svc-a'' ''default'' ''svc-b'' ''default'') new_topology
      in map_option length (hm_get (downstream t) a) = Some 1 \<and> map_option length (hm_get (upstream t) b) = Some 1 \<and>
         index_flow (downstream t) a (\<lambda>f. destination_node f = b) \<and> index_flow (upstream t) b (\<lambda>f. source_node f = a))"

definition test_resolve_noop_when_no_stale_node :: bool where
  "test_resolve_noop_when_no_stale_node =
     (let t = resolve_unknown_node ''10.0.0.99'' ''svc-b'' ''default''
                (add_node (mk_node ''svc-a'' ''default'') (node_data_of_ip []) new_topology)
      in length (nodes t) = 1 \<and> hm_contains (nodes t) (mk_node ''svc-a'' ''default''))"

definition test_resolve_rewires_flows_in_other_nodes :: bool where
  "test_resolve_rewires_flows_in_other_nodes =
     (let t0 = add_flow (test_flow ''svc-a'' ''default'' ''10.0.0.2'' ''unknown'')
                 (add_node (mk_node ''10.0.0.2'' ''unknown'') (node_data_of_ip ''10.0.0.2'')
                   (add_node (mk_node ''svc-a'' ''default'') (node_data_of_ip ''10.0.0.1'') new_topology));
          t = resolve_unknown_node ''10.0.0.2'' ''svc-b'' ''default'' t0;
          a = mk_node ''svc-a'' ''default''; b = mk_node ''svc-b'' ''default''
      in \<not> hm_contains (nodes t) (mk_node ''10.0.0.2'' ''unknown'') \<and> hm_contains (nodes t) b \<and>
         index_flow (downstream t) a (\<lambda>f. destination_node f = b) \<and> index_flow (upstream t) b (\<lambda>f. source_node f = a))"

definition test_resolve_merges_when_resolved_node_already_exists :: bool where
  "test_resolve_merges_when_resolved_node_already_exists =
     (let t0 = add_flow (test_flow ''svc-a'' ''default'' ''10.0.0.2'' ''unknown'')
                 (add_node (mk_node ''10.0.0.2'' ''unknown'') (node_data_of_ip ''10.0.0.2'')
                   (add_node (mk_node ''svc-b'' ''default'') (node_data_of_ip ''10.0.0.2'') new_topology));
          t = resolve_unknown_node ''10.0.0.2'' ''svc-b'' ''default'' t0
      in \<not> hm_contains (nodes t) (mk_node ''10.0.0.2'' ''unknown'') \<and>
         hm_contains (nodes t) (mk_node ''svc-b'' ''default'') \<and> index_ip t (mk_node ''svc-b'' ''default'') ''10.0.0.2'')"

definition in_subgraph :: "subgraph_result \<Rightarrow> string \<Rightarrow> bool" where
  "in_subgraph sg svc = (mk_node svc ''ns'' \<in> set (sg_nodes sg))"

definition test_subgraph_depth_1 :: bool where
  "test_subgraph_depth_1 =
     (let sg = get_subgraph make_graph ''svc-a'' ''ns'' 1
      in list_all (in_subgraph sg) [''svc-a'', ''svc-b'', ''svc-d'', ''caller''] \<and>
         \<not> in_subgraph sg ''svc-c'' \<and> \<not> in_subgraph sg ''svc-e'')"

definition test_subgraph_depth_2 :: bool where
  "test_subgraph_depth_2 =
     list_all (in_subgraph (get_subgraph make_graph ''svc-a'' ''ns'' 2))
       [''svc-a'', ''svc-b'', ''svc-c'', ''svc-d'', ''svc-e'', ''caller'']"

definition test_subgraph_cross_edges_excluded :: bool where
  "test_subgraph_cross_edges_excluded =
     (let t = add_flow (test_flow ''svc-d'' ''ns'' ''svc-b'' ''ns'') make_graph;
          sg = get_subgraph t ''svc-a'' ''ns'' 1
      in in_subgraph sg ''svc-d'' \<and>
         (case hm_get (sg_downstream sg) (mk_node ''svc-d'' ''ns'') of
            None \<Rightarrow> True
          | Some out \<Rightarrow> list_all (\<lambda>f. destination_node f \<noteq> mk_node ''svc-b'' ''ns'') out))"

definition test_subgraph_unknown_root :: bool where
  "test_subgraph_unknown_root = (sg_nodes (get_subgraph make_graph ''does-not-exist'' ''ns'' 2) = [])"

lemma topology_tests:
  "test_add_node_is_idempotent" "test_add_flow_populates_both_maps" "test_resolve_noop_when_no_stale_node"
  "test_resolve_rewires_flows_in_other_nodes" "test_resolve_merges_when_resolved_node_already_exists"
  "test_subgraph_depth_1" "test_subgraph_depth_2" "test_subgraph_cross_edges_excluded" "test_subgraph_unknown_root"
  by code_simp+

section \<open>Host names\<close>

definition host_tests :: "(string \<times> string \<times> string) list" where
  "host_tests =
     [(''service-b.default.svc.cluster.local'', ''service-b'', ''default''),
      (''service-b.default.svc'', ''service-b'', ''default''),
      (''service-b'', ''service-b'', ''unknown''),
      (''10.244.0.3'', ''10.244.0.3'', ''unknown''),
      (''service-b.default.svc:80'', ''service-b'', ''default''),
      (''httpbin.org'', ''httpbin.org'', ''external''),
      (''api.github.com'', ''api.github.com'', ''external'')]"

lemma host_tests_pass: "list_all (\<lambda>(host, svc, ns). parse_k8s_host host = (svc, ns)) host_tests"
proof -
  have "ipv4_to_string (u32_of_octets (10, 244, 0, 3)) = ''10.244.0.3''"
    by (simp add: ipv4_to_string_def octets_u32_of_octets) code_simp
  with parse_ip_host have "parse_k8s_host ''10.244.0.3'' = (''10.244.0.3'', ''unknown'')" by metis
  moreover have "parse_k8s_host ''service-b.default.svc.cluster.local'' = (''service-b'', ''default'')"
    "parse_k8s_host ''service-b.default.svc'' = (''service-b'', ''default'')"
    "parse_k8s_host ''service-b'' = (''service-b'', ''unknown'')"
    "parse_k8s_host ''service-b.default.svc:80'' = (''service-b'', ''default'')"
    "parse_k8s_host ''httpbin.org'' = (''httpbin.org'', ''external'')"
    "parse_k8s_host ''api.github.com'' = (''api.github.com'', ''external'')"
    by code_simp+
  ultimately show ?thesis by (simp add: host_tests_def)
qed

section \<open>Captured payloads\<close>

definition make_event :: "u8 list \<Rightarrow> tcp_payload_event" where
  "make_event payload =
     (let copy_len = min (length payload) (length (tp_payload default_event))
      in default_event\<lparr>tp_payload := take copy_len payload @ drop copy_len (tp_payload default_event),
           tp_payload_len := of_nat copy_len\<rparr>)"

definition crlf :: "u8 list" where
  "crlf = [0x0D, 0x0A]"

definition test_parse_method :: bool where
  "test_parse_method \<longleftrightarrow>
     parse_method (make_event (str_bytes ''GET /index HTTP/1.1'' @ crlf @ str_bytes ''Host: svc'' @ crlf @ crlf)) = Some ''GET'' \<and>
     parse_method (make_event (str_bytes ''POST /api/v1 HTTP/1.1'' @ crlf @ str_bytes ''Host: svc'' @ crlf @ crlf)) = Some ''POST'' \<and>
     parse_method (make_event (str_bytes ''NOTHTTP'')) = None"

definition test_parse_path :: bool where
  "test_parse_path \<longleftrightarrow>
     parse_path (make_event (str_bytes ''GET /api/v1/users HTTP/1.1'' @ crlf)) = Some ''/api/v1/users'' \<and>
     parse_path (make_event (str_bytes ''GET / HTTP/1.1'' @ crlf)) = Some ''/''"

definition test_parse_host :: bool where
  "test_parse_host \<longleftrightarrow>
     parse_host (make_event (str_bytes ''GET / HTTP/1.1'' @ crlf @ str_bytes ''Host: service-b.default'' @ crlf @
       str_bytes ''Content-Length: 0'' @ crlf @ crlf)) = Some ''service-b.default'' \<and>
     parse_host (make_event (str_bytes ''GET / HTTP/1.1'' @ crlf @ str_bytes ''Host: service-b:80'' @ crlf @ crlf)) = Some ''service-b'' \<and>
     parse_host (make_event (str_bytes ''GET / HTTP/1.1'' @ crlf @ str_bytes ''Content-Length: 0'' @ crlf @ crlf)) = None"

lemma payload_tests: "test_parse_method" "test_parse_path" "test_parse_host"
  by code_simp+

section \<open>The service registry\<close>

definition make_service :: "string \<Rightarrow> string \<Rightarrow> (string \<times> string) list \<Rightarrow> service_obj" where
  "make_service name ns selector =
     \<lparr>sv_metadata = \<lparr>om_name = Some name, om_namespace = Some ns, om_labels = None\<rparr>,
      sv_spec = Some \<lparr>ss_selector = Some (hm_collect selector), ss_type = Some ''ClusterIP'', ss_cluster_ip = None\<rparr>\<rparr>"

definition make_pod :: "(string \<times> string) list \<Rightarrow> pod_obj" where
  "make_pod labels =
     \<lparr>po_metadata = \<lparr>om_name = None, om_namespace = None, om_labels = Some (hm_collect labels)\<rparr>, po_status = None\<rparr>"

text \<open>\<open>registry.register(&svc).unwrap()\<close> on a new registry; \<open>None\<close> is the panic of \<open>unwrap\<close>.\<close>

definition registered :: "service_obj \<Rightarrow> service_registry option" where
  "registered svc = (case register svc (new_lock []) of (Inl _, _) \<Rightarrow> None | (Inr _, reg) \<Rightarrow> Some reg)"

definition finds :: "service_registry option \<Rightarrow> pod_obj \<Rightarrow> string option \<Rightarrow> bool" where
  "finds reg pod expected = (case reg of None \<Rightarrow> False | Some r \<Rightarrow> map_option fst (find_service_for_pod r pod) = expected)"

definition test_exact_match :: bool where
  "test_exact_match =
     finds (registered (make_service ''my-svc'' ''default'' [(''app'', ''frontend'')])) (make_pod [(''app'', ''frontend'')]) (Some ''my-svc'')"

definition test_selector_is_subset :: bool where
  "test_selector_is_subset =
     finds (registered (make_service ''api-svc'' ''prod'' [(''app'', ''api'')]))
       (make_pod [(''app'', ''api''), (''version'', ''v2''), (''tier'', ''backend'')]) (Some ''api-svc'')"

definition test_no_match :: bool where
  "test_no_match =
     finds (registered (make_service ''db-svc'' ''default'' [(''app'', ''db''), (''env'', ''prod'')])) (make_pod [(''app'', ''db'')]) None"

definition test_deregister :: bool where
  "test_deregister =
     (case registered (make_service ''temp-svc'' ''default'' [(''app'', ''temp'')]) of
        None \<Rightarrow> False
      | Some reg \<Rightarrow>
          (case deregister ''temp-svc'' ''default'' reg of
             (Inl _, _) \<Rightarrow> False
           | (Inr _, reg') \<Rightarrow> finds (Some reg') (make_pod [(''app'', ''temp'')]) None))"

definition test_selector_less :: bool where
  "test_selector_less =
     finds (registered \<lparr>sv_metadata = \<lparr>om_name = Some ''headless'', om_namespace = Some ''default'', om_labels = None\<rparr>,
         sv_spec = Some \<lparr>ss_selector = None, ss_type = None, ss_cluster_ip = None\<rparr>\<rparr>) (make_pod [(''app'', ''anything'')]) None"

lemma registry_tests: "test_exact_match" "test_selector_is_subset" "test_no_match" "test_deregister" "test_selector_less"
  by code_simp+

end
