(* ===== verification/Spec2Isabelle.thy ===== *)
theory Spec2Isabelle
  imports Entry_Points Display_Text Qubit_System Load_Test Unit_Tests
begin

text \<open>
  \<^bold>\<open>Qubit.\<close> Qubit builds a dependency graph of the services of a Kubernetes cluster from the HTTP
  requests that an eBPF socket filter sees. This development models its Rust code, under
  \<^verbatim>\<open>src/\<close>, and proves what each part promises.

  \<^bold>\<open>The parts and how they interact.\<close> On every node the socket filter (\<^verbatim>\<open>ebpf\<close>) copies the start of
  each HTTP request to user space, where the loader (\<^verbatim>\<open>ebpf-common\<close>, \<^verbatim>\<open>ebpf-loader\<close>) parses
  method, path and host and sends one request to Core. The cluster agent (\<^verbatim>\<open>cluster-agent\<close>) watches
  pods, services, config maps and other resources, resolves pods to services by labels, and tells Core the
  owner of every address, with a full snapshot every thirty seconds. Core (\<^verbatim>\<open>core\<close>) attributes each captured
  call to a pair of services, records it in the topology, repairs calls that were recorded against a raw address
  once the pod becomes known, writes new flows to ClickHouse on a timer, and answers queries over gRPC
  and HTTP. The assistant's server (\<^verbatim>\<open>mcp-server\<close>) renders these answers as text. \<^verbatim>\<open>load-tests\<close>
  generates traffic.

  \<^bold>\<open>Theories.\<close>
  \<^item> \<open>Qubit_Prelude\<close>: the shared types (machine integers, \<open>Result\<close> as a sum with the error on the left), hash maps
    as association lists with distinct keys in an arbitrary order, \<open>RwLock\<close> with its poison flag, \<open>OnceLock\<close>; the locale
    \<open>kv_store\<close>, interpreted for hash maps.
  \<^item> \<open>Rust_Strings\<close>: what the sources use of \<open>str\<close> and of \<open>Ipv4Addr\<close>; a string is its UTF-8 bytes.
  \<^item> \<open>Moka_Cache\<close>: the contract of the caching package.
  \<^item> \<open>Topology\<close> and \<open>Subgraph\<close>: \<^verbatim>\<open>core/src/topology/topology.rs\<close>. The graph with its two indices, all its
    operations and the resolution of raw addresses, refining an abstract graph of nodes and flows;
    the breadth-first sub-graph against reachability in the call relation.
  \<^item> \<open>Core_Model\<close>, \<open>K8s_Aggregator\<close>, \<open>Ebpf_Aggregator\<close>: \<^verbatim>\<open>core/src/model\<close>, \<^verbatim>\<open>core/src/envoy\<close> and
    \<^verbatim>\<open>core/src/aggregator\<close>. Attribution, deduplication, recording, healing, resource events.
  \<^item> \<open>Grpc_Server\<close>: \<^verbatim>\<open>core/src/server/grpc.rs\<close>. The seven handlers, and Core as a state machine over requests
    and spawned tasks (\<open>core_step\<close>), with the invariant of its reachable states.
  \<^item> \<open>Interleaving\<close>: the same handlers and recording tasks access by access, as threads of a multi-threaded runtime
    (\<open>pool_step\<close>). A thread on its own does what the handler does in one piece, so the atomic machine is one of the
    schedules; the invariant and the exactness of deduplication hold in every schedule; recording tasks are
    serialisable; a race between a recording task and a pod notification is exhibited. The locale \<open>stepper\<close>
    states what a thread promises the scheduler.
  \<^item> \<open>Query_Server\<close> and \<open>Dao\<close>: \<^verbatim>\<open>core/src/server/query.rs\<close>, \<^verbatim>\<open>handler.rs\<close> and \<^verbatim>\<open>core/src/dao/db.rs\<close>. Answers
    are faithful to the graph, entry by entry for every service whose printed key no other service shares (always so if
    namespaces have no slash, which the code does not enforce: \<open>host_with_slash\<close>); flushes are exact, by the key they
    compare, and idempotent; pages are bounded.
  \<^item> \<open>Core_Run\<close>: \<^verbatim>\<open>core/src/lib.rs\<close>, \<^verbatim>\<open>server/http.rs\<close>, \<^verbatim>\<open>server/factory.rs\<close>, \<^verbatim>\<open>config/config.rs\<close>. The process:
    schema, requests, tasks, flush timer, expiry of rows and shutdown interleave over the state and the
    database.
  \<^item> \<open>Capture\<close> and \<open>Loader_Wiring\<close>: \<^verbatim>\<open>ebpf/src/main.rs\<close>, \<^verbatim>\<open>ebpf-common/src/lib.rs\<close> and \<^verbatim>\<open>ebpf-loader/src\<close>. The
    filter reports exactly the request segments; what was sent on the wire reaches Core; the
    start sequence with its failures; the lossy first line of a payload.
  \<^item> \<open>Cluster_Agent\<close>, \<open>Envoy_Parser\<close>, \<open>Agent_Wiring\<close>: \<^verbatim>\<open>cluster-agent/src\<close>. Registry, handlers (the locale
    \<open>watch_handler\<close>, interpreted for all five), snapshot, the reader of Envoy files; the informers, their construction,
    and the agent as a state machine of interleaved tasks (\<open>agent_step\<close>), in which the registry is determined by the
    services watched so far and pods are announced with a service that is current.
  \<^item> \<open>Mcp_Server\<close> and \<open>Display_Text\<close>: \<^verbatim>\<open>mcp-server/src\<close> and the \<open>Display\<close> implementations of Core. The reports
    are functions of the graph alone, whatever the order of the hash maps. A lexer of ClickHouse's string literals
    (\<open>sql_lex\<close>) reads the statements sent: filters without a backslash stay inside their quotes, and one that ends in a
    backslash does not (\<open>mcp_backslash\<close>).
  \<^item> \<open>Load_Test\<close>: \<^verbatim>\<open>load-tests/src/main.rs\<close>. The streams end; the namespace keeps what it had, and gains at most config
    maps for which a call failed.
  \<^item> \<open>Entry_Points\<close>: the four \<^verbatim>\<open>main.rs\<close>, \<^verbatim>\<open>server/factory.rs\<close> and the constructors of the servers. Which handles the
    servers of Core share, and how each program ends.
  \<^item> \<open>Qubit_System\<close>: agent, loaders, requests under way and Core as one system (\<open>system_step\<close>), in which requests are lost
    and overtake each other and agent and Core restart. What Core knows stems from what agents announced; a resync
    repairs every history for the pods it lists; what it does not repair.
  \<^item> \<open>Unit_Tests\<close>: the unit tests of the repository, evaluated on the model.
  \<^item> This theory: properties that span components, among them the path from a packet on the wire to the line in
    the assistant's report.

  \<^bold>\<open>State and operations.\<close> A struct is a record, an enum a datatype, a fallible function returns a sum, a panic is
  \<open>None\<close>. A handler is a function from the state to the state; work handed to \<open>tokio::spawn\<close> is a list of
  tasks in the state (Core) or of requests in the history \<open>outbox\<close> (the agent), and a step relation lets them run,
  or the requests be delivered or lost, in any order. In \<open>Interleaving\<close> a handler is the list of its accesses, and a task is a program point with its locals.
  Machine integers are words where their width matters: ports, addresses, the depth of a query,
  the offset of a page, the look-back of a query wrap around as in a release build.

  \<^bold>\<open>Parameters.\<close> Code that is not in the repository is an argument, with its documented behaviour as a named
  hypothesis: the caches (\<open>cache_laws\<close>), the ClickHouse client (\<open>clickhouse_laws\<close>, \<open>table_laws\<close>), the socket buffer
  (\<open>skb_laws\<close>), the interval of the runtime (\<open>on_schedule\<close>), the config map API (\<open>config_map_laws\<close>); YAML values,
  the file system, \<open>aya\<close>, the JSON printer and the clocks need no laws. Each law is shown to hold
  for a concrete instance, which the witnesses use.

  \<^bold>\<open>Bounds and fuel.\<close> The breadth-first search runs as many rounds as the requested depth, which the code does
  too, so no fuel is added. A recording task takes at most six steps and a handler as many as it has accesses, so
  every thread that keeps being scheduled ends. The loops of the load generator may run forever and are partial functions;
  they are proved to return. Every other recursion is structural or has a measure.

  \<^bold>\<open>Not modelled.\<close> Transport, routing and serving (\<open>tonic\<close>, \<open>axum\<close>, \<open>tokio\<close>), the watcher of \<open>kube\<close>, the MCP
  protocol (\<open>rmcp\<close>) and the eBPF verifier are third-party code. Log lines, the progress lines of the load
  generator (floating point), the description texts of the MCP tools and the user interface in TypeScript are left
  out. Cache operations and sections under one lock are atomic, as the cache package and \<open>RwLock\<close> promise;
  memory effects below that level are not modelled. An overflow that a debug build would report is modelled as in a release build.
\<close>

section \<open>Properties that span components\<close>

text \<open>C30. Traffic may be seen before the pod it goes to is known. Such a call is recorded against the
  raw destination address; when the pod notification arrives later, the recorded call is moved to
  the pod's application, no node of the raw address remains, and the graph stays well formed.\<close>

theorem late_pod_heals:
  fixes svc ty :: string
  assumes "core_reachable K to_json s"
    and "\<not> str_contains (in_path i) ''/health''"
    and "source_of (pods_ops K) (pod_cache s) (src_ip_str i) = Some p"
    and "before_char (CHR '':'') (in_host i) = dst_ip_str i"
    and "envoy_get (envoy_ops K) (envoy_cache s) (dst_ip_str i) = None"
    and "cache_get (pods_ops K) (pod_cache s) (dst_ip_str i) = None"
    and "edge_key (pod_namespace p) (pod_service_name p) ''unknown'' (dst_ip_str i) \<notin> set (inner (seen_edges s))"
    and "mk_node (pod_application_name p) (pod_namespace p) \<noteq> stale_id_of (dst_ip_str i)"
    and "app \<noteq> []" and "mk_node app ns \<noteq> stale_id_of (dst_ip_str i)"
  defines "s1 \<equiv> snd (record_ebpf_event K i s)"
  defines "s2 \<equiv> record_pod_applied K (dst_ip_str i) ns app svc ty s1"
  defines "call \<equiv> \<lambda>dst. \<lparr>source_node = mk_node (pod_application_name p) (pod_namespace p), destination_node = dst,
             flow_path = in_path i, flow_method = in_method i\<rparr>"
  shows "call (stale_id_of (dst_ip_str i)) \<in> flow_set (inner (topo s1)) \<and>
    call (mk_node app ns) \<in> flow_set (inner (topo s2)) \<and>
    stale_id_of (dst_ip_str i) \<notin> node_set (inner (topo s2)) \<and> topo_inv (inner (topo s2))"
proof -
  let ?stale = "stale_id_of (dst_ip_str i)"
  let ?src = "mk_node (pod_application_name p) (pod_namespace p)"
  have inv: "core_inv s" using assms(1) by (rule core_inv_reachable)
  have e: "edge_of K i s = Some (?src, ?stale, edge_key (pod_namespace p) (pod_service_name p) ''unknown'' (dst_ip_str i))"
    using assms(2-6) parse_ip_host [of "u32_from_be (dst_ip i)"]
    by (simp add: edge_of_def destination_of_def dst_service_of_def stale_id_of_def dst_ip_str_def)
  then have t1: "inner (topo s1) = record_call i ?src ?stale (inner (topo s))"
    using assms(7) inv by (simp add: s1_def record_state Let_def core_inv_def)
  have inv1: "topo_inv (inner (topo s1))" and ok1: "\<not> poisoned (topo s1)"
    using core_inv_record_ebpf_event [OF inv, of K i] by (simp_all add: s1_def core_inv_def)
  have g1: "call ?stale \<in> flow_set (inner (topo s1))" "?stale \<in> node_set (inner (topo s1))"
    using inv record_call_graph by (simp_all add: t1 call_def core_inv_def)
  have t2: "inner (topo s2) = resolve_unknown_node (dst_ip_str i) app ns (inner (topo s1))"
    using assms(9) ok1 by (simp add: s2_def topo_record_pod_applied)
  have "rename_flow ?stale (mk_node app ns) (call ?stale) = call (mk_node app ns)"
    using assms(8) by (simp add: call_def rename_flow_def rename_node_def)
  then have "call (mk_node app ns) \<in> flow_set (inner (topo s2))"
    unfolding t2 topo.flows_heal [OF inv1 g1(2)] using g1(1) by (metis imageI)
  then show ?thesis
    using g1(1) topo.inv_heal [OF inv1] topo.heal_removes_node [OF assms(10)] by (simp add: t2)
qed

theorem late_pod_heals_witness:
  "\<lparr>source_node = mk_node ''svc-a'' ''default'', destination_node = mk_node ''svc-c'' ''default'',
     flow_path = ''/api'', flow_method = ''GET''\<rparr> \<in>
   flow_set (inner (topo (record_pod_applied hash_caches ''10.0.0.9'' ''default'' ''svc-c'' ''svc-c'' ''ClusterIP''
     (snd (record_ebpf_event hash_caches (call_a_b\<lparr>dst_ip := 0x0900000A, in_host := ''10.0.0.9:8080''\<rparr>) two_pods)))))"
proof -
  let ?i = "call_a_b\<lparr>dst_ip := 0x0900000A, in_host := ''10.0.0.9:8080''\<rparr>"
  have a: "src_ip_str ?i = ''10.0.0.1''" using call_a_b_addresses(1) by (simp add: src_ip_str_def)
  have b: "dst_ip_str ?i = ''10.0.0.9''"
    by (simp add: dst_ip_str_def u32_from_be_def octets_def u32_of_octets_def
      ipv4_to_string_def dotted_def nat_str.simps char_of_def bit_0)
  have h: "before_char (CHR '':'') ''10.0.0.9:8080'' = ''10.0.0.9''" by code_simp
  have p: "in_path ?i = ''/api''" "in_method ?i = ''GET''" "\<not> str_contains (in_path ?i) ''/health''" by code_simp+
  show ?thesis
    using late_pod_heals [OF two_pods_reachable, where i = ?i and app = "''svc-c''" and ns = "''default''"
        and svc = "''svc-c''" and ty = "''ClusterIP''"] p(3)
    by (simp add: a b h p(1,2) source_of_def envoy_get_def two_pods_def init_core_def envoy_new_def stale_id_of_def)
qed

text \<open>C34. From the wire to the assistant. Let the packet be an IPv4 TCP segment to port 80 or 8080 whose payload begins
  with a capital letter, which the kernel's packet interface reads as it is, and let method, path and host be read from
  the captured bytes, the path without \<^verbatim>\<open>/health\<close>. Let Core, in any state the system can get into, know the pods at the source
  and destination addresses with their application names, have no Envoy route for the host and not
  have seen the pair of services, and let no other service share the printed key of the
  destination (as is the case when namespaces have no slash). Then the system can capture the packet,
  deliver it and record it, and from then on Core answers a query, and the dependency tool, however
  the answer is decoded, lists the source under the callers of the destination with the method and path of
  the request.\<close>

theorem packet_to_report:
  fixes pkt :: "u8 list" and now :: u64
  assumes laws: "cache_laws (pods_ops K)" and reach: "system_reachable Y cfg K to_json y"
    and pkt: "skb_laws ctx pkt" "http_segment pkt"
  defines "e \<equiv> read_event (event_bytes (captured now pkt))"
  defines "src \<equiv> dotted (unat (pkt ! 26), unat (pkt ! 27), unat (pkt ! 28), unat (pkt ! 29))"
  defines "dst \<equiv> dotted (unat (pkt ! 30), unat (pkt ! 31), unat (pkt ! 32), unat (pkt ! 33))"
  assumes parsed: "parse_method e = Some m" "m \<noteq> []" "parse_path e = Some path" "parse_host e = Some host"
      "\<not> str_contains path ''/health''"
    and pods: "cache_get (pods_ops K) (pod_cache (fst (sy_pool y))) src = Some p" "pod_application_name p \<noteq> []"
      "cache_get (pods_ops K) (pod_cache (fst (sy_pool y))) dst = Some d" "pod_application_name d \<noteq> []"
    and route: "envoy_get (envoy_ops K) (envoy_cache (fst (sy_pool y))) (before_char (CHR '':'') host) = None"
    and new: "edge_key (pod_namespace p) (pod_service_name p) (pod_namespace d)
      (if pod_service_name d \<noteq> [] then pod_service_name d else pod_application_name d)
      \<notin> set (inner (seen_edges (fst (sy_pool y))))"
  defines "t0 \<equiv> inner (topo (fst (sy_pool y)))"
  assumes own: "own_key (insert (mk_node (pod_application_name p) (pod_namespace p))
      (node_set t0 \<union> fst ` set (upstream t0) \<union> fst ` set (downstream t0))) (mk_node (pod_application_name d) (pod_namespace d))"
  shows "\<exists>y'. system_steps Y cfg K to_json y y' \<and>
    (\<exists>resp. get_topology (topo (fst (sy_pool y'))) = Inr resp \<and>
      (\<forall>resp'. same_entries resp resp' \<longrightarrow>
         str_contains (mcp_get_service_dependencies (grpc_get_topology show_status (Inr resp'))
             \<lparr>gi_service = pod_application_name d, gi_namespace = pod_namespace d\<rparr>)
           (''    '' @ arrow_left @ '' '' @ pod_namespace p @ ''/'' @ pod_application_name p @ '' ('' @ m @ '' '' @ path @ '')'' @ nl)))"
proof -
  obtain q where q: "captured_request now ctx = [q]" "src_ip_str (input_of q) = src" "dst_ip_str (input_of q) = dst"
      "in_method (input_of q) = m" "in_path (input_of q) = path" "in_host (input_of q) = host"
    using captured_packet [OF pkt parsed(1) [unfolded e_def] parsed(2)] parsed(3,4)
    by (auto simp: src_def dst_def e_def [symmetric] unwrap_or_default_def)
  let ?i = "input_of q" and ?s = "fst (sy_pool y)" and ?n = "mk_node (pod_application_name d) (pod_namespace d)"
  let ?y1 = "y\<lparr>sy_flight := sy_flight y + mset (map SendEbpfNetworkEvent (captured_request now ctx))\<rparr>"
  obtain y' where y': "system_steps Y cfg K to_json ?y1 y'" "fst (sy_pool y') = snd (record_ebpf_event K ?i ?s)"
    using recorded_steps [of q ?y1 Y cfg K to_json] q(1) by auto
  have steps: "system_steps Y cfg K to_json y y'"
    using steps_trans [OF y'(1)] one_step [OF packet] by blast
  have inv: "core_inv ?s" "core_inv (fst (sy_pool y'))"
    using core_inv_reachable_system [OF laws] reach reachable_steps [OF reach steps] by blast+
  let ?src = "mk_node (pod_application_name p) (pod_namespace p)"
  let ?f = "\<lparr>source_node = ?src, destination_node = ?n, flow_path = path, flow_method = m\<rparr>"
  have t: "inner (topo (fst (sy_pool y'))) = record_call ?i ?src ?n (inner (topo ?s))"
    using edge_of_known_pods [of ?i K ?s p d] parsed(5) pods route inv(1) new
    by (simp add: q y'(2) record_state core_inv_def Let_def)
  let ?t = "inner (topo (fst (sy_pool y')))"
  have n: "?n \<in> node_set ?t" and f: "?f \<in> flow_set ?t"
    using inv(1) record_call_graph [of "inner (topo ?s)" ?i] by (simp_all add: t core_inv_def q)
  have "?f \<in> set (hm_vec (upstream ?t) ?n)"
    using f mirrored_vec_sets(1) [OF topo_inv_mirrored] inv(2) by (simp add: core_inv_def)
  note line = report_lists_caller [OF this]
  have "own_key (node_set ?t \<union> fst ` set (upstream ?t) \<union> fst ` set (downstream ?t)) ?n"
    using own inv(1) by (auto simp: t record_call_keys record_call_graph core_inv_def t0_def own_key_def)
  moreover obtain resp where resp: "get_topology (topo (fst (sy_pool y'))) = Inr resp"
    using inv(2) by (simp add: get_topology_def core_inv_def Let_def)
  ultimately have "str_contains (mcp_get_service_dependencies (grpc_get_topology show_status (Inr resp'))
           \<lparr>gi_service = pod_application_name d, gi_namespace = pod_namespace d\<rparr>)
         (''    '' @ arrow_left @ '' '' @ pod_namespace p @ ''/'' @ pod_application_name p @ '' ('' @ m @ '' '' @ path @ '')'' @ nl)"
    if "same_entries resp resp'" for resp'
    using line n dependencies_answer [OF inv(2), where input = "\<lparr>gi_service = pod_application_name d, gi_namespace = pod_namespace d\<rparr>",
        OF _ resp that] by (simp add: node_key_def)
  then show ?thesis using steps resp by blast
qed

text \<open>A system whose first snapshot announces the two pods of the sample packet.\<close>

definition two_pod_lists :: api_lists where
  "two_pod_lists =
     \<lparr>al_services = Inr [sample_service ''svc-a'' ''default'' [(''app'', ''a'')], sample_service ''svc-b'' ''default'' [(''app'', ''b'')]],
      al_pods = Inr [sample_pod ''a-1'' ''default'' [(''app'', ''a'')] ''10.0.0.1'', sample_pod ''b-1'' ''default'' [(''app'', ''b'')] ''10.0.0.2''],
      al_configmaps = Inl ''down''\<rparr>"

definition two_pod_system ::
  "((string, pod_info) hash_map, (string, service_info) hash_map, (string, string \<times> string) hash_map) system" where
  "two_pod_system =
     (let y = start_system (yaml_values sample_envoy) sample_config hash_caches two_pod_lists
      in handled (\<lambda>_. ''{}'') hash_caches (hd (sy_sent y)) y)"

lemma two_pod_request:
  "outbox (ru_agent (start_run Y cfg two_pod_lists)) = [SendServicePodMap
     [\<lparr>sp_service_name = ''svc-a'', sp_namespace = ''default'', sp_service_type = ''ClusterIP'',
       sp_pod_ips = [''10.0.0.1''], sp_application_name = ''svc-a''\<rparr>,
      \<lparr>sp_service_name = ''svc-b'', sp_namespace = ''default'', sp_service_type = ''ClusterIP'',
       sp_pod_ips = [''10.0.0.2''], sp_application_name = ''svc-b''\<rparr>]]"
  by (simp add: start_run_def resync_def sync_pod_map_def sync_envoy_routes_def two_pod_lists_def spawn_send_def empty_agent_def
      send_initial_pod_service_map_def agg_service_pod_map_def snapshot_entry_def sample_service_def sample_pod_def
      str_or_default_def map_or_default_def pod_ip_def Let_def)

lemma two_pod_reachable: "system_reachable (yaml_values sample_envoy) sample_config hash_caches (\<lambda>_. ''{}'') two_pod_system"
proof -
  let ?y = "start_system (yaml_values sample_envoy) sample_config hash_caches two_pod_lists"
  have "hd (sy_sent ?y) \<in># sy_flight ?y" by (simp add: start_system_def Let_def two_pod_request)
  from handled_steps [OF this] show ?thesis unfolding system_reachable_def two_pod_system_def Let_def by blast
qed

lemma two_pod_core: "fst (sy_pool two_pod_system) = two_pods"
  by (simp add: two_pod_system_def Let_def start_system_def two_pod_request two_pods_snapshot)

theorem packet_to_report_witness:
  "\<exists>y' resp. system_reachable (yaml_values sample_envoy) sample_config hash_caches (\<lambda>_. ''{}'') y' \<and>
     get_topology (topo (fst (sy_pool y'))) = Inr resp \<and>
     str_contains (mcp_get_service_dependencies (grpc_get_topology (\<lambda>_. []) (Inr resp))
         \<lparr>gi_service = ''svc-b'', gi_namespace = ''default''\<rparr>)
       (''    '' @ arrow_left @ '' default/svc-a (GET /api)'' @ nl)"
proof -
  let ?e = "read_event (event_bytes (captured 7 sample_packet))"
  have addrs: "dotted (unat (sample_packet ! 26), unat (sample_packet ! 27), unat (sample_packet ! 28), unat (sample_packet ! 29)) = ''10.0.0.1''"
    "dotted (unat (sample_packet ! 30), unat (sample_packet ! 31), unat (sample_packet ! 32), unat (sample_packet ! 33)) = ''10.0.0.2''"
    by code_simp+
  have parsed: "parse_method ?e = Some ''GET''" "parse_path ?e = Some ''/api''" "parse_host ?e = Some ''svc-b''"
    "\<not> str_contains ''/api'' ''/health''"
    using sample_parsed by simp_all
  have host: "before_char (CHR '':'') ''svc-b'' = ''svc-b''" by code_simp
  have "same_entries resp resp" for resp by (simp add: same_entries_def)
  moreover have "own_key {mk_node ''svc-a'' ''default''} (mk_node ''svc-b'' ''default'')"
    by (rule slash_free_own_key) (simp add: slash_free_def)
  ultimately show ?thesis
    using packet_to_report [OF _ two_pod_reachable sample_skb sample_segment parsed(1) _ parsed(2,3,4),
        unfolded addrs two_pod_core, of "hd (map snd (pod_cache two_pods))" "last (map snd (pod_cache two_pods))" "\<lambda>_. []"]
      reachable_steps [OF two_pod_reachable]
    by (simp add: hash_cache_laws host two_pods_def init_core_def envoy_get_def envoy_new_def node_set_def new_topology_def) blast
qed

end
